theory Spec2Isabelle
  imports Main
begin

section \<open>Identifiers, errors and documents\<close>

text \<open>
  The repository keeps its data in two MongoDB collections, \<open>RssFeed\<close> and \<open>RssArticle\<close>.
  A collection is modelled as the list of its documents in natural order, a thrown
  exception as the \<open>Inl\<close> branch of a sum, and a timestamp (\<open>Date\<close>) as its number of
  milliseconds (\<open>getTime()\<close>).
\<close>

type_synonym ObjectId = string
  \<comment> \<open>an ObjectId, represented by its canonical (lower-case) 24-digit hex string\<close>

datatype error =
    Error string                \<comment> \<open>\<open>new Error(message)\<close>\<close>
  | MongoServerError nat string \<comment> \<open>a driver error carrying a numeric \<open>code\<close>\<close>

definition isHexDigit :: "char \<Rightarrow> bool" where
  "isHexDigit c = (c \<in> set ''0123456789abcdefABCDEF'')"

definition hexLower :: "char \<Rightarrow> char" where
  "hexLower c =
     (if c = CHR ''A'' then CHR ''a'' else if c = CHR ''B'' then CHR ''b''
      else if c = CHR ''C'' then CHR ''c'' else if c = CHR ''D'' then CHR ''d''
      else if c = CHR ''E'' then CHR ''e'' else if c = CHR ''F'' then CHR ''f''
      else c)"

text \<open>
  \<open>new ObjectId(id)\<close> belongs to the database driver, not to the repository. The driver
  accepts a string of exactly 24 hexadecimal digits and prints an id in lower case;
  anything else makes the constructor throw.
\<close>

definition newObjectId :: "string \<Rightarrow> ObjectId option" where
  "newObjectId s =
     (if length s = 24 \<and> list_all isHexDigit s then Some (map hexLower s) else None)"

text \<open>\<open>toObjectId\<close> of \<open>lib/mongodb\<close>: the constructor's exception is replaced by an \<open>Error\<close>.\<close>

definition toObjectId :: "string \<Rightarrow> error + ObjectId" where
  "toObjectId s =
     (case newObjectId s of
        Some oid \<Rightarrow> Inr oid
      | None \<Rightarrow> Inl (Error (''Invalid ObjectId: '' @ s)))"

definition fromObjectId :: "ObjectId \<Rightarrow> string" where
  "fromObjectId oid = oid"

text \<open>\<open>feedIds.map(toObjectId)\<close>: the first invalid id throws.\<close>

fun mapToObjectId :: "string list \<Rightarrow> error + ObjectId list" where
  "mapToObjectId [] = Inr []"
| "mapToObjectId (s # ss) =
     (case toObjectId s of
        Inl e \<Rightarrow> Inl e
      | Inr oid \<Rightarrow> (case mapToObjectId ss of Inl e \<Rightarrow> Inl e | Inr oids \<Rightarrow> Inr (oid # oids)))"

record RssFeed =
  feed_id :: ObjectId                 \<comment> \<open>\<open>_id\<close>\<close>
  userId :: ObjectId
  url :: string
  feed_title :: "string option"
  feed_description :: "string option"
  feed_link :: "string option"
  feed_imageUrl :: "string option"
  feed_language :: "string option"
  lastFetched :: "int option"         \<comment> \<open>absent until the first successful fetch\<close>

text \<open>
  \<open>ArticleData\<close> is what the feed parser returns for one item; \<open>ArticleCreateData\<close> is
  the same with the id of the feed it was read from.
\<close>

record ArticleData =
  guid :: string
  title :: string
  link :: string
  content :: "string option"
  summary :: "string option"
  pubDate :: int
  author :: "string option"
  categories :: "string list option"
  imageUrl :: "string option"

record ArticleCreateData = ArticleData +
  feedId :: string

record RssArticle =
  article_id :: nat                   \<comment> \<open>\<open>_id\<close>, generated by the driver on insert\<close>
  article_feedId :: ObjectId          \<comment> \<open>\<open>feedId\<close>, the primary feed\<close>
  article_guid :: string
  sourceFeedIds :: "ObjectId list option"
  article_title :: string
  article_link :: string
  article_content :: "string option"
  article_summary :: "string option"
  article_pubDate :: int
  article_author :: "string option"
  article_categories :: "string list"
  article_imageUrl :: "string option"
  createdAt :: int
  updatedAt :: int

record Database =
  rssFeeds :: "RssFeed list"
  rssArticles :: "RssArticle list"

record BulkOperationResult =
  created :: nat
  skipped :: nat
  errors :: nat

record 'm FetchResult = BulkOperationResult +
  metadata :: 'm

record ArticleWithFeed =
  stored :: RssArticle                \<comment> \<open>the document's own fields\<close>
  sourceCount :: nat
  feedInfo :: "(ObjectId \<times> string option \<times> string) option"
    \<comment> \<open>\<open>feed\<close>: id, title and url of the primary feed, or null\<close>

record PrepareFeedsParams =
  feedIds :: "string list"
  startDate :: int
  endDate :: int

section \<open>Collection primitives\<close>

text \<open>\<open>findOneAndUpdate\<close> with \<open>returnDocument: "after"\<close>: the first match is updated and returned.\<close>

fun findOneAndUpdate :: "('a \<Rightarrow> bool) \<Rightarrow> ('a \<Rightarrow> 'a) \<Rightarrow> 'a list \<Rightarrow> 'a list \<times> 'a option" where
  "findOneAndUpdate P u [] = ([], None)"
| "findOneAndUpdate P u (x # xs) =
     (if P x then (u x # xs, Some (u x))
      else (case findOneAndUpdate P u xs of (ys, r) \<Rightarrow> (x # ys, r)))"

fun deleteOne :: "('a \<Rightarrow> bool) \<Rightarrow> 'a list \<Rightarrow> 'a list" where
  "deleteOne P [] = []"
| "deleteOne P (x # xs) = (if P x then xs else x # deleteOne P xs)"

text \<open>\<open>$addToSet\<close>: an absent field becomes a one-element array; a present value is not repeated.\<close>

definition addToSet :: "ObjectId \<Rightarrow> ObjectId list option \<Rightarrow> ObjectId list option" where
  "addToSet oid field =
     (case field of
        None \<Rightarrow> Some [oid]
      | Some ids \<Rightarrow> if oid \<in> set ids then Some ids else Some (ids @ [oid]))"

text \<open>\<open>existing.sourceFeedIds || []\<close>\<close>

definition orEmpty :: "'a list option \<Rightarrow> 'a list" where
  "orEmpty field = (case field of None \<Rightarrow> [] | Some xs \<Rightarrow> xs)"

definition freshId :: "RssArticle list \<Rightarrow> nat" where
  "freshId coll = Suc (fold max (map article_id coll) 0)"

text \<open>
  \<open>insertOne\<close> into \<open>RssArticle\<close>. The collection has a unique index on \<open>guid\<close> (README,
  section RssArticle); an insert that would repeat a guid fails with the driver's
  duplicate-key error, code 11000. The driver chooses the new \<open>_id\<close>.
\<close>

definition insertOne :: "RssArticle list \<Rightarrow> RssArticle \<Rightarrow> error + (RssArticle list \<times> nat)" where
  "insertOne coll doc =
     (if article_guid doc \<in> set (map article_guid coll)
      then Inl (MongoServerError 11000 ''E11000 duplicate key error'')
      else (let insertedId = freshId coll
            in Inr (coll @ [doc\<lparr>article_id := insertedId\<rparr>], insertedId)))"

section \<open>Article actions (\<open>actions/rss-article.ts\<close>)\<close>

text \<open>
  \<open>createRssArticle\<close> reads and then writes, with an \<open>await\<close> between the two. What other
  writers do to the collection while the call is suspended is the parameter \<open>env\<close>, applied
  between each two consecutive database operations of the call; \<open>env = (\<lambda>c. c)\<close> is a run
  without concurrent writers. \<open>wrapDatabaseOperation\<close> logs and rethrows, so it does not
  change the result.
\<close>

definition createRssArticle ::
  "(RssArticle list \<Rightarrow> RssArticle list) \<Rightarrow> int \<Rightarrow> RssArticle list \<Rightarrow> ArticleCreateData
     \<Rightarrow> RssArticle list \<times> (error + RssArticle)" where
  "createRssArticle env now coll data =
     (case toObjectId (feedId data) of
        Inl e \<Rightarrow> (coll, Inl e)
      | Inr feedObjectId \<Rightarrow>
          (case find (\<lambda>a. article_guid a = guid data) coll of
             Some existing \<Rightarrow>
               (let coll1 = env coll;
                    existingFeedIds = map fromObjectId (orEmpty (sourceFeedIds existing))
                in if feedId data \<notin> set existingFeedIds
                   then (case findOneAndUpdate (\<lambda>a. article_guid a = guid data)
                                (\<lambda>a. a\<lparr>sourceFeedIds := addToSet feedObjectId (sourceFeedIds a)\<rparr>)
                                coll1 of
                           (coll2, None) \<Rightarrow> (coll2, Inl (Error ''Failed to update article''))
                         | (coll2, Some result) \<Rightarrow> (coll2, Inr result))
                   else (case find (\<lambda>a. article_guid a = guid data) coll1 of
                           None \<Rightarrow> (coll1, Inl (Error ''Article not found''))
                         | Some fullArticle \<Rightarrow> (coll1, Inr fullArticle)))
           | None \<Rightarrow>
               (let coll1 = env coll in
                case insertOne coll1
                       \<lparr>article_id = 0, article_feedId = feedObjectId, article_guid = guid data,
                        sourceFeedIds = Some [feedObjectId], article_title = title data,
                        article_link = link data, article_content = content data,
                        article_summary = summary data, article_pubDate = pubDate data,
                        article_author = author data,
                        article_categories = orEmpty (categories data),
                        article_imageUrl = imageUrl data, createdAt = now, updatedAt = now\<rparr> of
                  Inl e \<Rightarrow> (coll1, Inl e)
                | Inr (coll2, insertedId) \<Rightarrow>
                    (let coll3 = env coll2 in
                     case find (\<lambda>a. article_id a = insertedId) coll3 of
                       None \<Rightarrow> (coll3, Inl (Error ''Failed to create article''))
                     | Some newArticle \<Rightarrow> (coll3, Inr newArticle)))))"

text \<open>\<open>error instanceof Error && error.code === 11000\<close>\<close>

definition isDuplicateKey :: "error \<Rightarrow> bool" where
  "isDuplicateKey e = (case e of MongoServerError code _ \<Rightarrow> code = 11000 | Error _ \<Rightarrow> False)"

text \<open>The \<open>for\<close> loop of \<open>bulkCreateRssArticles\<close> with its \<open>try\<close>/\<open>catch\<close> body.\<close>

fun bulkLoop ::
  "(RssArticle list \<Rightarrow> RssArticle list) \<Rightarrow> int \<Rightarrow> RssArticle list \<Rightarrow> BulkOperationResult
     \<Rightarrow> ArticleCreateData list \<Rightarrow> RssArticle list \<times> BulkOperationResult" where
  "bulkLoop env now coll results [] = (coll, results)"
| "bulkLoop env now coll results (article # rest) =
     (case createRssArticle env now coll article of
        (coll', Inr _) \<Rightarrow> bulkLoop env now coll' (results\<lparr>created := created results + 1\<rparr>) rest
      | (coll', Inl e) \<Rightarrow>
          if isDuplicateKey e
          then bulkLoop env now coll' (results\<lparr>skipped := skipped results + 1\<rparr>) rest
          else bulkLoop env now coll' (results\<lparr>errors := errors results + 1\<rparr>) rest)"

definition bulkCreateRssArticles ::
  "(RssArticle list \<Rightarrow> RssArticle list) \<Rightarrow> int \<Rightarrow> RssArticle list \<Rightarrow> ArticleCreateData list
     \<Rightarrow> RssArticle list \<times> BulkOperationResult" where
  "bulkCreateRssArticles env now coll articles =
     bulkLoop env now coll \<lparr>created = 0, skipped = 0, errors = 0\<rparr> articles"

text \<open>
  The per-article outcomes of the same loop, kept instead of counted: what
  \<open>createRssArticle\<close> returned or threw for each article, in order.
\<close>

fun bulkOutcomes ::
  "(RssArticle list \<Rightarrow> RssArticle list) \<Rightarrow> int \<Rightarrow> RssArticle list \<Rightarrow> ArticleCreateData list
     \<Rightarrow> (error + RssArticle) list" where
  "bulkOutcomes env now coll [] = []"
| "bulkOutcomes env now coll (article # rest) =
     (case createRssArticle env now coll article of
        (coll', r) \<Rightarrow> r # bulkOutcomes env now coll' rest)"

text \<open>
  \<open>cursor.limit(n)\<close> belongs to the driver: a limit of 0 means no limit, a positive one
  keeps the first \<open>n\<close> documents.
\<close>

definition cursorLimit :: "nat \<Rightarrow> 'a list \<Rightarrow> 'a list" where
  "cursorLimit n xs = (if n = 0 then xs else take n xs)"

text \<open>
  The filter \<open>$or: [{feedId: {$in: ids}}, {sourceFeedIds: {$in: ids}}]\<close>: on an array field,
  \<open>$in\<close> matches when some element of the array is one of \<open>ids\<close>.
\<close>

definition matchesFeeds :: "ObjectId list \<Rightarrow> RssArticle \<Rightarrow> bool" where
  "matchesFeeds ids a =
     (article_feedId a \<in> set ids \<or> list_ex (\<lambda>s. s \<in> set ids) (orEmpty (sourceFeedIds a)))"

text \<open>
  \<open>sort({pubDate: -1})\<close> is modelled by the stable sort on the negated date; the database
  leaves the order of equal dates open.
\<close>

definition getArticlesByFeedsAndDateRange ::
  "Database \<Rightarrow> string list \<Rightarrow> int \<Rightarrow> int \<Rightarrow> nat \<Rightarrow> error + ArticleWithFeed list" where
  "getArticlesByFeedsAndDateRange db ids start end limit =
     (case mapToObjectId ids of
        Inl e \<Rightarrow> Inl e
      | Inr feedObjectIds \<Rightarrow>
          (let articles =
                 cursorLimit limit
                   (sort_key (\<lambda>a. - article_pubDate a)
                      (filter (\<lambda>a. matchesFeeds feedObjectIds a \<and>
                                    start \<le> article_pubDate a \<and> article_pubDate a \<le> end)
                              (rssArticles db)))
           in Inr (map (\<lambda>a. \<lparr>stored = a,
                              sourceCount = length (orEmpty (sourceFeedIds a)),
                              feedInfo = map_option (\<lambda>f. (feed_id f, feed_title f, url f))
                                       (find (\<lambda>f. feed_id f = article_feedId a) (rssFeeds db))\<rparr>)
                       articles)))"

section \<open>Feed actions (\<open>actions/rss-feed.ts\<close>, \<open>actions/rss-fetch.ts\<close>)\<close>

definition updateFeedLastFetched ::
  "int \<Rightarrow> RssFeed list \<Rightarrow> string \<Rightarrow> RssFeed list \<times> (error + RssFeed)" where
  "updateFeedLastFetched now coll fid =
     (case toObjectId fid of
        Inl e \<Rightarrow> (coll, Inl e)
      | Inr oid \<Rightarrow>
          (case findOneAndUpdate (\<lambda>f. feed_id f = oid) (\<lambda>f. f\<lparr>lastFetched := Some now\<rparr>) coll of
             (coll', None) \<Rightarrow> (coll', Inl (Error (''Feed with ID '' @ fid @ '' not found'')))
           | (coll', Some result) \<Rightarrow> (coll', Inr result)))"

text \<open>\<open>updateMany({sourceFeedIds: oid}, {$pull: {sourceFeedIds: oid}})\<close> on one document.\<close>

definition pullFeed :: "ObjectId \<Rightarrow> RssArticle \<Rightarrow> RssArticle" where
  "pullFeed oid a =
     (case sourceFeedIds a of
        None \<Rightarrow> a
      | Some ids \<Rightarrow> if oid \<in> set ids then a\<lparr>sourceFeedIds := Some (filter (\<lambda>s. s \<noteq> oid) ids)\<rparr>
                    else a)"

text \<open>The filter of \<open>deleteMany\<close>: \<open>sourceFeedIds\<close> of size 0, or no such field.\<close>

definition noFeedReferences :: "RssArticle \<Rightarrow> bool" where
  "noFeedReferences a = (case sourceFeedIds a of None \<Rightarrow> True | Some ids \<Rightarrow> length ids = 0)"

definition deleteRssFeed :: "Database \<Rightarrow> string \<Rightarrow> Database \<times> (error + bool)" where
  "deleteRssFeed db fid =
     (case toObjectId fid of
        Inl e \<Rightarrow> (db, Inl e)
      | Inr feedObjectId \<Rightarrow>
          (let pulled = map (pullFeed feedObjectId) (rssArticles db);
               kept = filter (\<lambda>a. \<not> noFeedReferences a) pulled;
               feeds = deleteOne (\<lambda>f. feed_id f = feedObjectId) (rssFeeds db)
           in (\<lparr>rssFeeds = feeds, rssArticles = kept\<rparr>, Inr True)))"

text \<open>The conversion of the parsed items to the format of \<open>bulkCreateRssArticles\<close>.\<close>

definition articlesToCreate :: "string \<Rightarrow> ArticleData list \<Rightarrow> ArticleCreateData list" where
  "articlesToCreate fid articles =
     map (\<lambda>article. \<lparr>guid = guid article, title = title article, link = link article,
                     content = content article, summary = summary article,
                     pubDate = pubDate article, author = author article,
                     categories = categories article, imageUrl = imageUrl article,
                     feedId = fid\<rparr>) articles"

text \<open>
  \<open>fetchAndStoreFeed\<close>. The feed parser (\<open>lib/rss/parser\<close>) reaches the network; it is the
  parameter \<open>fetchAndParseFeed\<close>, which returns the feed's metadata and items or throws.
\<close>

definition fetchAndStoreFeed ::
  "(string \<Rightarrow> string \<Rightarrow> error + ('m \<times> ArticleData list)) \<Rightarrow> (RssArticle list \<Rightarrow> RssArticle list)
     \<Rightarrow> int \<Rightarrow> Database \<Rightarrow> string \<Rightarrow> Database \<times> (error + 'm FetchResult)" where
  "fetchAndStoreFeed fetchAndParseFeed env now db fid =
     (case toObjectId fid of
        Inl e \<Rightarrow> (db, Inl e)
      | Inr oid \<Rightarrow>
          (case find (\<lambda>f. feed_id f = oid) (rssFeeds db) of
             None \<Rightarrow> (db, Inl (Error (''Feed with ID '' @ fid @ '' not found'')))
           | Some feed \<Rightarrow>
               (case fetchAndParseFeed (url feed) fid of
                  Inl e \<Rightarrow> (db, Inl e)
                | Inr (meta, articles) \<Rightarrow>
                    (case bulkCreateRssArticles env now (rssArticles db)
                            (articlesToCreate fid articles) of
                       (arts, result) \<Rightarrow>
                            (case updateFeedLastFetched now (rssFeeds db) fid of
                               (feeds, Inl e) \<Rightarrow> (\<lparr>rssFeeds = feeds, rssArticles = arts\<rparr>, Inl e)
                             | (feeds, Inr _) \<Rightarrow>
                                 (\<lparr>rssFeeds = feeds, rssArticles = arts\<rparr>,
                                  Inr \<lparr>created = created result, skipped = skipped result,
                                       errors = errors result, metadata = meta\<rparr>))))))"

section \<open>Feed freshness (\<open>lib/rss/feed-refresh.ts\<close>)\<close>

definition CACHE_WINDOW :: int where
  "CACHE_WINDOW = 3 * 60 * 60 * 1000"

definition ARTICLE_LIMIT :: nat where
  "ARTICLE_LIMIT = 100"

text \<open>The accumulator \<open>$max\<close> of an aggregation group: absent values are ignored.\<close>

fun maxDate :: "int option list \<Rightarrow> int option" where
  "maxDate [] = None"
| "maxDate (None # ds) = maxDate ds"
| "maxDate (Some d # ds) =
     (case maxDate ds of None \<Rightarrow> Some d | Some m \<Rightarrow> Some (max d m))"

text \<open>
  The aggregation pipeline of \<open>getFeedsToRefresh\<close>: \<open>$match\<close> keeps the feed documents
  of the whole collection whose url is one of \<open>urls\<close> and whose \<open>lastFetched\<close> is a date
  at or after the threshold (\<open>$gte\<close>); \<open>$group\<close> yields one row per url with the
  largest \<open>lastFetched\<close> of its group.
\<close>

definition recentFetches :: "int \<Rightarrow> RssFeed list \<Rightarrow> string list \<Rightarrow> (string \<times> int option) list" where
  "recentFetches cacheThreshold coll urls =
     (let matched = filter (\<lambda>f. url f \<in> set urls \<and>
                                 (case lastFetched f of None \<Rightarrow> False
                                  | Some t \<Rightarrow> cacheThreshold \<le> t)) coll
      in map (\<lambda>u. (u, maxDate (map lastFetched (filter (\<lambda>f. url f = u) matched))))
             (remdups (map url matched)))"

text \<open>
  \<open>getFeedsToRefresh\<close>, with the current time and the feed collection as arguments. The
  requested feeds come back in the order of the collection; \<open>urlsToCheck\<close> is only used
  as the set of an \<open>$in\<close>, so the order in which duplicates are dropped does not matter.
\<close>

definition getFeedsToRefresh :: "int \<Rightarrow> RssFeed list \<Rightarrow> string list \<Rightarrow> error + string list" where
  "getFeedsToRefresh now coll ids =
     (let cacheThreshold = now - CACHE_WINDOW in
      case mapToObjectId ids of
        Inl e \<Rightarrow> Inl e
      | Inr feedObjectIds \<Rightarrow>
          (let feeds = filter (\<lambda>f. feed_id f \<in> set feedObjectIds) coll;
               urlsToCheck = remdups (map url feeds);
               recentlyFetchedUrls =
                 map fst (filter (\<lambda>fetch. snd fetch \<noteq> None)
                                 (recentFetches cacheThreshold coll urlsToCheck));
               feedsToRefresh =
                 map (\<lambda>feed. fromObjectId (feed_id feed))
                     (filter (\<lambda>feed. url feed \<notin> set recentlyFetchedUrls) feeds)
           in Inr feedsToRefresh))"

text \<open>
  The freshness rule in the words of the design document: the largest \<open>lastFetched\<close> over
  every feed document that shares the url, if there is one.
\<close>

definition maxLastFetched :: "RssFeed list \<Rightarrow> string \<Rightarrow> int option" where
  "maxLastFetched coll u = maxDate (map lastFetched (filter (\<lambda>f. url f = u) coll))"

section \<open>The refresh orchestrator (\<open>prepareFeedsAndArticles\<close>)\<close>

text \<open>The three \<open>console.log\<close> lines of \<open>prepareFeedsAndArticles\<close>, with the numbers they print.\<close>

datatype logLine =
    Refreshing nat nat          \<comment> \<open>Refreshing \<open>n\<close> stale feeds (out of \<open>m\<close> total)...\<close>
  | RefreshComplete nat nat     \<comment> \<open>Feed refresh complete: \<open>s\<close> successful, \<open>f\<close> failed\<close>
  | AllFresh nat                \<comment> \<open>All \<open>m\<close> feeds are fresh, skipping refresh\<close>

text \<open>
  \<open>Promise.allSettled(feedsToRefresh.map((feedId) => fetchAndStoreFeed(feedId)))\<close> starts
  every refresh at once; each of them is suspended at every \<open>await\<close>, and the event loop
  resumes them in the order in which their database and network calls complete. A refresh
  in progress is therefore a value of its own: the point it has reached and what it holds
  in its local variables.
\<close>

datatype position =
    AtRead                        \<comment> \<open>next: \<open>findOne({guid})\<close>\<close>
  | AtWrite RssArticle ObjectId   \<comment> \<open>the guid was found; next: the update, or the read of the full article\<close>
  | AtInsert ObjectId             \<comment> \<open>the guid was not found; next: \<open>insertOne\<close>\<close>
  | AtReadBack nat                \<comment> \<open>inserted; next: \<open>findOne({_id: insertedId})\<close>\<close>

datatype 'm task =
    FindFeed string               \<comment> \<open>next: the lookup of the feed\<close>
  | Fetching string RssFeed       \<comment> \<open>next: \<open>fetchAndParseFeed\<close>\<close>
  | Storing string 'm BulkOperationResult ArticleCreateData "ArticleCreateData list" position
      \<comment> \<open>inside the loop of \<open>bulkCreateRssArticles\<close>: the counts so far, the article being
          created, the articles still to come, and the point reached in \<open>createRssArticle\<close>\<close>
  | Updating string 'm BulkOperationResult  \<comment> \<open>next: \<open>updateFeedLastFetched\<close>\<close>
  | Settled "error + 'm FetchResult"

text \<open>The three branches of the loop body of \<open>bulkCreateRssArticles\<close>, for one settled call.\<close>

definition tally :: "BulkOperationResult \<Rightarrow> (error + RssArticle) \<Rightarrow> BulkOperationResult" where
  "tally results r =
     (case r of
        Inr _ \<Rightarrow> results\<lparr>created := created results + 1\<rparr>
      | Inl e \<Rightarrow>
          if isDuplicateKey e then results\<lparr>skipped := skipped results + 1\<rparr>
          else results\<lparr>errors := errors results + 1\<rparr>)"

text \<open>The loop goes on with the next article, or is left.\<close>

definition nextArticle ::
  "string \<Rightarrow> 'm \<Rightarrow> BulkOperationResult \<Rightarrow> ArticleCreateData list \<Rightarrow> 'm task" where
  "nextArticle fid meta results articles =
     (case articles of
        [] \<Rightarrow> Updating fid meta results
      | a # rest \<Rightarrow> Storing fid meta results a rest AtRead)"

text \<open>
  One database operation of \<open>createRssArticle\<close>, from the point reached: the collection
  after it, and either the next point (\<open>Inl\<close>) or what the call returns or throws (\<open>Inr\<close>).
\<close>

definition stepArticle ::
  "int \<Rightarrow> ArticleCreateData \<Rightarrow> position \<Rightarrow> RssArticle list
     \<Rightarrow> RssArticle list \<times> (position + (error + RssArticle))" where
  "stepArticle now data pos coll =
     (case pos of
        AtRead \<Rightarrow>
          (case toObjectId (feedId data) of
             Inl e \<Rightarrow> (coll, Inr (Inl e))
           | Inr feedObjectId \<Rightarrow>
               (case find (\<lambda>a. article_guid a = guid data) coll of
                  Some existing \<Rightarrow> (coll, Inl (AtWrite existing feedObjectId))
                | None \<Rightarrow> (coll, Inl (AtInsert feedObjectId))))
      | AtWrite existing feedObjectId \<Rightarrow>
          (let existingFeedIds = map fromObjectId (orEmpty (sourceFeedIds existing))
           in if feedId data \<notin> set existingFeedIds
              then (case findOneAndUpdate (\<lambda>a. article_guid a = guid data)
                           (\<lambda>a. a\<lparr>sourceFeedIds := addToSet feedObjectId (sourceFeedIds a)\<rparr>)
                           coll of
                      (coll2, None) \<Rightarrow> (coll2, Inr (Inl (Error ''Failed to update article'')))
                    | (coll2, Some result) \<Rightarrow> (coll2, Inr (Inr result)))
              else (case find (\<lambda>a. article_guid a = guid data) coll of
                      None \<Rightarrow> (coll, Inr (Inl (Error ''Article not found'')))
                    | Some fullArticle \<Rightarrow> (coll, Inr (Inr fullArticle))))
      | AtInsert feedObjectId \<Rightarrow>
          (case insertOne coll
                  \<lparr>article_id = 0, article_feedId = feedObjectId, article_guid = guid data,
                   sourceFeedIds = Some [feedObjectId], article_title = title data,
                   article_link = link data, article_content = content data,
                   article_summary = summary data, article_pubDate = pubDate data,
                   article_author = author data,
                   article_categories = orEmpty (categories data),
                   article_imageUrl = imageUrl data, createdAt = now, updatedAt = now\<rparr> of
             Inl e \<Rightarrow> (coll, Inr (Inl e))
           | Inr (coll2, insertedId) \<Rightarrow> (coll2, Inl (AtReadBack insertedId)))
      | AtReadBack insertedId \<Rightarrow>
          (case find (\<lambda>a. article_id a = insertedId) coll of
             None \<Rightarrow> (coll, Inr (Inl (Error ''Failed to create article'')))
           | Some newArticle \<Rightarrow> (coll, Inr (Inr newArticle))))"

text \<open>
  One step of a refresh: the code of \<open>fetchAndStoreFeed\<close> from the point reached up to the
  next \<open>await\<close>, that is one database operation or the one network call. A settled refresh
  does nothing more.
\<close>

definition stepTask ::
  "(string \<Rightarrow> string \<Rightarrow> error + ('m \<times> ArticleData list)) \<Rightarrow> int \<Rightarrow> 'm task \<Rightarrow> Database
     \<Rightarrow> 'm task \<times> Database" where
  "stepTask fetchAndParseFeed now t db =
     (case t of
        FindFeed fid \<Rightarrow>
          (case toObjectId fid of
             Inl e \<Rightarrow> (Settled (Inl e), db)
           | Inr oid \<Rightarrow>
               (case find (\<lambda>f. feed_id f = oid) (rssFeeds db) of
                  None \<Rightarrow> (Settled (Inl (Error (''Feed with ID '' @ fid @ '' not found''))), db)
                | Some feed \<Rightarrow> (Fetching fid feed, db)))
      | Fetching fid feed \<Rightarrow>
          (case fetchAndParseFeed (url feed) fid of
             Inl e \<Rightarrow> (Settled (Inl e), db)
           | Inr (meta, articles) \<Rightarrow>
               (nextArticle fid meta \<lparr>created = 0, skipped = 0, errors = 0\<rparr>
                  (articlesToCreate fid articles), db))
      | Storing fid meta results a rest pos \<Rightarrow>
          (case stepArticle now a pos (rssArticles db) of
             (coll, Inl pos') \<Rightarrow> (Storing fid meta results a rest pos', db\<lparr>rssArticles := coll\<rparr>)
           | (coll, Inr r) \<Rightarrow>
               (nextArticle fid meta (tally results r) rest, db\<lparr>rssArticles := coll\<rparr>))
      | Updating fid meta results \<Rightarrow>
          (case updateFeedLastFetched now (rssFeeds db) fid of
             (feeds, Inl e) \<Rightarrow> (Settled (Inl e), db\<lparr>rssFeeds := feeds\<rparr>)
           | (feeds, Inr _) \<Rightarrow>
               (Settled (Inr \<lparr>created = created results, skipped = skipped results,
                                errors = errors results, metadata = meta\<rparr>),
                db\<lparr>rssFeeds := feeds\<rparr>))
      | Settled r \<Rightarrow> (Settled r, db))"

text \<open>
  What happens next is an event: the event loop resumes one of the refreshes (by its index
  in \<open>feedsToRefresh\<close>), or a writer outside this request changes the article collection
  (\<open>env\<close>, as for \<open>createRssArticle\<close>). A schedule is a list of events.
\<close>

datatype event = Resume nat | OtherWriter

fun runSchedule ::
  "(string \<Rightarrow> string \<Rightarrow> error + ('m \<times> ArticleData list)) \<Rightarrow> (RssArticle list \<Rightarrow> RssArticle list)
     \<Rightarrow> int \<Rightarrow> event list \<Rightarrow> 'm task list \<Rightarrow> Database \<Rightarrow> 'm task list \<times> Database" where
  "runSchedule fetchAndParseFeed env now [] tasks db = (tasks, db)"
| "runSchedule fetchAndParseFeed env now (OtherWriter # sched) tasks db =
     runSchedule fetchAndParseFeed env now sched tasks (db\<lparr>rssArticles := env (rssArticles db)\<rparr>)"
| "runSchedule fetchAndParseFeed env now (Resume i # sched) tasks db =
     (if i < length tasks
      then (case stepTask fetchAndParseFeed now (tasks ! i) db of
              (t, db1) \<Rightarrow> runSchedule fetchAndParseFeed env now sched (tasks[i := t]) db1)
      else runSchedule fetchAndParseFeed env now sched tasks db)"

text \<open>
  How far a refresh is from its end: the part of \<open>fetchAndStoreFeed\<close> it is in and, inside
  the loop, three operations at most for each article to come and those left for the
  current one.
\<close>

fun stepsLeft :: "position \<Rightarrow> nat" where
  "stepsLeft AtRead = 3"
| "stepsLeft (AtInsert _) = 2"
| "stepsLeft (AtWrite _ _) = 1"
| "stepsLeft (AtReadBack _) = 1"

fun phase :: "'m task \<Rightarrow> nat" where
  "phase (FindFeed _) = 4"
| "phase (Fetching _ _) = 3"
| "phase (Storing _ _ _ _ _ _) = 2"
| "phase (Updating _ _ _) = 1"
| "phase (Settled _) = 0"

fun weight :: "'m task \<Rightarrow> nat" where
  "weight (Storing _ _ _ _ rest pos) = 3 * length rest + stepsLeft pos"
| "weight _ = 0"

text \<open>
  A refresh resumed again and again, with nothing in between, until it settles. Each step
  lowers the pair of \<open>phase\<close> and \<open>weight\<close>, so it does settle.
\<close>

function finishTask ::
  "(string \<Rightarrow> string \<Rightarrow> error + ('m \<times> ArticleData list)) \<Rightarrow> int \<Rightarrow> 'm task \<Rightarrow> Database
     \<Rightarrow> Database \<times> (error + 'm FetchResult)" where
  "finishTask fetchAndParseFeed now t db =
     (case t of
        Settled r \<Rightarrow> (db, r)
      | _ \<Rightarrow> (case stepTask fetchAndParseFeed now t db of
                (t1, db1) \<Rightarrow> finishTask fetchAndParseFeed now t1 db1))"
  by pat_completeness auto

termination finishTask
proof (relation "inv_image (less_than <*lex*> less_than) (\<lambda>(f, n, t, d). (phase t, weight t))",
    goal_cases)
  have newer: "stepsLeft pos1 < stepsLeft pos"
    if "stepArticle now a pos coll = (coll1, Inl pos1)" for now a pos coll coll1 pos1
    using that
    by (cases pos)
       (auto simp: stepArticle_def Let_def split: sum.splits option.splits prod.splits if_splits)
  have some: "0 < stepsLeft pos" for pos
    by (cases pos) auto
  have down: "phase t1 < phase t \<or> (phase t1 = phase t \<and> weight t1 < weight t)"
    if run: "stepTask net now t db = (t1, db1)" and live: "phase t \<noteq> 0"
    for net :: "string \<Rightarrow> string \<Rightarrow> error + ('m \<times> ArticleData list)"
      and now t db t1 db1
  proof (cases t)
    case (Storing fid meta results a rest pos)
    obtain coll out where st: "stepArticle now a pos (rssArticles db) = (coll, out)"
      by (cases "stepArticle now a pos (rssArticles db)")
    show ?thesis
    proof (cases out)
      case (Inl pos1)
      then show ?thesis using run Storing st newer [of now a pos "rssArticles db" coll pos1]
        by (auto simp: stepTask_def)
    next
      case (Inr r)
      then show ?thesis using run Storing st some [of pos]
        by (cases rest) (auto simp: stepTask_def nextArticle_def)
    qed
  qed (use run live in \<open>auto simp: stepTask_def nextArticle_def
         split: sum.splits option.splits prod.splits list.splits\<close>)
  have less: "((net, now, t1, db1), (net, now, t, db))
                \<in> inv_image (less_than <*lex*> less_than) (\<lambda>(f, n, t, d). (phase t, weight t))"
    if "(t1, db1) = stepTask net now t db" and "phase t \<noteq> 0"
    for net :: "string \<Rightarrow> string \<Rightarrow> error + ('m \<times> ArticleData list)"
      and now t db t1 db1
    using down [OF that(1) [symmetric] that(2)] by auto
  {
    case 1
    show ?case by (intro wf_inv_image wf_lex_prod wf_less_than)
  }
  {
    case 2
    from less [OF 2(2)] 2(1) show ?case by simp
  }
  {
    case 3
    from less [OF 3(2)] 3(1) show ?case by simp
  }
  {
    case 4
    from less [OF 4(2)] 4(1) show ?case by simp
  }
  {
    case 5
    from less [OF 5(2)] 5(1) show ?case by simp
  }
qed

declare finishTask.simps [simp del]

text \<open>
  When the schedule is used up, the refreshes still pending run to their end one after the
  other. So every schedule stands for a complete run of \<open>Promise.allSettled\<close>, and every
  complete run is the run of a schedule. The result is the database and the list of
  outcomes, in the order of \<open>feedsToRefresh\<close>: a value (\<open>Inr\<close>, fulfilled) or an exception
  (\<open>Inl\<close>, rejected) each.
\<close>

fun drain ::
  "(string \<Rightarrow> string \<Rightarrow> error + ('m \<times> ArticleData list)) \<Rightarrow> int \<Rightarrow> 'm task list \<Rightarrow> Database
     \<Rightarrow> Database \<times> (error + 'm FetchResult) list" where
  "drain fetchAndParseFeed now [] db = (db, [])"
| "drain fetchAndParseFeed now (t # ts) db =
     (case finishTask fetchAndParseFeed now t db of
        (db1, r) \<Rightarrow>
          (case drain fetchAndParseFeed now ts db1 of
             (db2, rs) \<Rightarrow> (db2, r # rs)))"

definition allSettled ::
  "(string \<Rightarrow> string \<Rightarrow> error + ('m \<times> ArticleData list)) \<Rightarrow> (RssArticle list \<Rightarrow> RssArticle list)
     \<Rightarrow> int \<Rightarrow> event list \<Rightarrow> Database \<Rightarrow> string list
     \<Rightarrow> Database \<times> (error + 'm FetchResult) list" where
  "allSettled fetchAndParseFeed env now sched db feedsToRefresh =
     (case runSchedule fetchAndParseFeed env now sched (map FindFeed feedsToRefresh) db of
        (tasks, db1) \<Rightarrow> drain fetchAndParseFeed now tasks db1)"

definition fulfilled :: "(error + 'a) \<Rightarrow> bool" where
  "fulfilled r = (case r of Inr _ \<Rightarrow> True | Inl _ \<Rightarrow> False)"

definition rejected :: "(error + 'a) \<Rightarrow> bool" where
  "rejected r = (case r of Inr _ \<Rightarrow> False | Inl _ \<Rightarrow> True)"

definition noArticlesFound :: error where
  "noArticlesFound = Error ''No articles found for the selected feeds and date range''"

text \<open>The refresh phase: lines 103 to 128 of \<open>feed-refresh.ts\<close>, after the staleness check.\<close>

definition refreshStale ::
  "(string \<Rightarrow> string \<Rightarrow> error + ('m \<times> ArticleData list)) \<Rightarrow> (RssArticle list \<Rightarrow> RssArticle list)
     \<Rightarrow> int \<Rightarrow> event list \<Rightarrow> Database \<Rightarrow> nat \<Rightarrow> string list \<Rightarrow> Database \<times> logLine list" where
  "refreshStale fetchAndParseFeed env now sched db requested feedsToRefresh =
     (if length feedsToRefresh > 0
      then (case allSettled fetchAndParseFeed env now sched db feedsToRefresh of
              (db1, refreshResults) \<Rightarrow>
                (let successful = length (filter fulfilled refreshResults);
                     failed = length (filter rejected refreshResults)
                 in (db1, [Refreshing (length feedsToRefresh) requested,
                           RefreshComplete successful failed])))
      else (db, [AllFresh requested]))"

text \<open>
  \<open>prepareFeedsAndArticles\<close>: what it leaves in the database, what it writes to the
  console, and what it returns or throws. The console lines are not part of the returned
  value.
\<close>

definition prepareFeedsAndArticles ::
  "(string \<Rightarrow> string \<Rightarrow> error + ('m \<times> ArticleData list)) \<Rightarrow> (RssArticle list \<Rightarrow> RssArticle list)
     \<Rightarrow> int \<Rightarrow> event list \<Rightarrow> Database \<Rightarrow> PrepareFeedsParams
     \<Rightarrow> Database \<times> logLine list \<times> (error + ArticleWithFeed list)" where
  "prepareFeedsAndArticles fetchAndParseFeed env now sched db params =
     (case getFeedsToRefresh now (rssFeeds db) (feedIds params) of
        Inl e \<Rightarrow> (db, [], Inl e)
      | Inr feedsToRefresh \<Rightarrow>
          (case refreshStale fetchAndParseFeed env now sched db (length (feedIds params))
                  feedsToRefresh of
             (db1, logged) \<Rightarrow>
               (case getArticlesByFeedsAndDateRange db1 (feedIds params) (startDate params)
                       (endDate params) ARTICLE_LIMIT of
                  Inl e \<Rightarrow> (db1, logged, Inl e)
                | Inr articles \<Rightarrow>
                    if length articles = 0 then (db1, logged, Inl noArticlesFound)
                    else (db1, logged, Inr articles))))"




text \<open>The two ways a settled \<open>createRssArticle\<close> can have failed, as the \<open>catch\<close> block tells them apart.\<close>

definition duplicateKeyFailure :: "(error + 'a) \<Rightarrow> bool" where
  "duplicateKeyFailure r = (case r of Inl e \<Rightarrow> isDuplicateKey e | Inr _ \<Rightarrow> False)"

definition otherFailure :: "(error + 'a) \<Rightarrow> bool" where
  "otherFailure r = (case r of Inl e \<Rightarrow> \<not> isDuplicateKey e | Inr _ \<Rightarrow> False)"

text \<open>Ingestion of one item without concurrent writers: the collection after \<open>createRssArticle\<close>.\<close>

definition ingest :: "int \<Rightarrow> ArticleCreateData \<Rightarrow> RssArticle list \<Rightarrow> RssArticle list" where
  "ingest now d coll = fst (createRssArticle (\<lambda>c. c) now coll d)"

section \<open>The article invariant and feed removal, as the design document words them\<close>

text \<open>The two parts of the invariant of a stored article.\<close>

definition primaryInSources :: "RssArticle \<Rightarrow> bool" where
  "primaryInSources a = (article_feedId a \<in> set (orEmpty (sourceFeedIds a)))"

definition hasSources :: "RssArticle \<Rightarrow> bool" where
  "hasSources a = (orEmpty (sourceFeedIds a) \<noteq> [])"

text \<open>
  \<open>removeFeedReference(feedId)\<close> in the document's words: remove the feed id from every
  article's \<open>sourceFeeds\<close>, then delete every article whose \<open>sourceFeeds\<close> is empty. It is
  compared with \<open>deleteRssFeed\<close> below.
\<close>

definition removeFeedReference :: "ObjectId \<Rightarrow> RssArticle list \<Rightarrow> RssArticle list" where
  "removeFeedReference f coll =
     filter hasSources
       (map (\<lambda>a. a\<lparr>sourceFeedIds := map_option (filter (\<lambda>s. s \<noteq> f)) (sourceFeedIds a)\<rparr>) coll)"

section \<open>Example data\<close>

text \<open>
  Two subscriptions to the same url by different accounts: \<open>feedA\<close> was fetched at time 1000,
  \<open>feedB\<close> never.
\<close>

definition idA :: string where
  "idA = ''0000000000000000000000a1''"

definition idB :: string where
  "idB = ''0000000000000000000000b2''"

definition feedA :: RssFeed where
  "feedA = \<lparr>feed_id = idA, userId = ''000000000000000000000001'',
     url = ''https://example.org/rss'', feed_title = None, feed_description = None,
     feed_link = None, feed_imageUrl = None, feed_language = None,
     lastFetched = Some 1000\<rparr>"

definition feedB :: RssFeed where
  "feedB = \<lparr>feed_id = idB, userId = ''000000000000000000000002'',
     url = ''https://example.org/rss'', feed_title = None, feed_description = None,
     feed_link = None, feed_imageUrl = None, feed_language = None,
     lastFetched = None\<rparr>"

text \<open>
  One feed item, the request to store it for a given feed, and the document that a
  subscriber of \<open>feedA\<close> stores for it. \<open>racingInsert a\<close> is a concurrent writer that
  inserts \<open>a\<close> unless its guid is already there.
\<close>

definition item :: ArticleData where
  "item = \<lparr>guid = ''guid-1'', title = ''Title'', link = ''https://example.org/1'',
     content = None, summary = None, pubDate = 500, author = None, categories = None,
     imageUrl = None\<rparr>"

definition itemFrom :: "string \<Rightarrow> ArticleCreateData" where
  "itemFrom fid = \<lparr>guid = guid item, title = title item, link = link item,
     content = content item, summary = summary item, pubDate = pubDate item,
     author = author item, categories = categories item, imageUrl = imageUrl item,
     feedId = fid\<rparr>"

definition storedFromA :: RssArticle where
  "storedFromA = \<lparr>article_id = 1, article_feedId = idA, article_guid = ''guid-1'',
     sourceFeedIds = Some [idA], article_title = ''Title'',
     article_link = ''https://example.org/1'', article_content = None,
     article_summary = None, article_pubDate = 500, article_author = None,
     article_categories = [], article_imageUrl = None, createdAt = 0, updatedAt = 0\<rparr>"

definition racingInsert :: "RssArticle \<Rightarrow> RssArticle list \<Rightarrow> RssArticle list" where
  "racingInsert a coll =
     (if article_guid a \<in> set (map article_guid coll) then coll else coll @ [a])"

text \<open>An article that both feeds have produced, and a database of the two feeds and two articles.\<close>

definition sharedArticle :: RssArticle where
  "sharedArticle = storedFromA\<lparr>article_id := 2, article_guid := ''guid-2'',
     sourceFeedIds := Some [idA, idB]\<rparr>"

definition exampleDb :: Database where
  "exampleDb = \<lparr>rssFeeds = [feedA, feedB], rssArticles = [storedFromA, sharedArticle]\<rparr>"

text \<open>
  Two feed parsers for the examples: one whose request times out, one that returns the
  example item.
\<close>

definition fetchTimeout :: "string \<Rightarrow> string \<Rightarrow> error + (unit \<times> ArticleData list)" where
  "fetchTimeout u fid = Inl (Error ''timeout'')"

definition fetchItem :: "string \<Rightarrow> string \<Rightarrow> error + (unit \<times> ArticleData list)" where
  "fetchItem u fid = Inr ((), [item])"

text \<open>
  The scenario of the design document: two stale feeds, of which the first yields three new
  items and the second times out.
\<close>

definition idC :: string where
  "idC = ''0000000000000000000000c3''"

definition feedC :: RssFeed where
  "feedC = \<lparr>feed_id = idC, userId = ''000000000000000000000002'',
     url = ''https://example.net/feed'', feed_title = None, feed_description = None,
     feed_link = None, feed_imageUrl = None, feed_language = None,
     lastFetched = None\<rparr>"


definition scenarioDb :: Database where
  "scenarioDb = \<lparr>rssFeeds = [feedB, feedC], rssArticles = []\<rparr>"



definition raceSchedule :: "event list" where
  "raceSchedule = [Resume 0, Resume 1, Resume 0, Resume 1, Resume 0, Resume 1, Resume 0, Resume 1]"




section \<open>Properties of the freshness check\<close>

lemma toObjectId_idA: "toObjectId idA = Inr idA"
  by (simp add: idA_def toObjectId_def newObjectId_def isHexDigit_def hexLower_def)

lemma toObjectId_idB: "toObjectId idB = Inr idB"
  by (simp add: idB_def toObjectId_def newObjectId_def isHexDigit_def hexLower_def)

lemma idA_neq_idB: "idA \<noteq> idB"
  by (simp add: idA_def idB_def)

lemma maxDate_None_iff: "maxDate ds = None \<longleftrightarrow> (\<forall>d\<in>set ds. d = None)"
  by (induction ds rule: maxDate.induct) (auto split: option.splits)

lemma maxDate_Some_mem: "maxDate ds = Some m \<Longrightarrow> Some m \<in> set ds"
  by (induction ds arbitrary: m rule: maxDate.induct) (auto split: option.splits simp: max_def)

lemma maxDate_Some_ub: "maxDate ds = Some m \<Longrightarrow> Some t \<in> set ds \<Longrightarrow> t \<le> m"
  by (induction ds arbitrary: m rule: maxDate.induct)
     (auto split: option.splits simp: maxDate_None_iff)

lemma recentFetches_rows:
  "set (recentFetches th coll urls) =
   (\<lambda>u. (u, maxDate (map lastFetched
            (filter (\<lambda>f. url f = u)
               (filter (\<lambda>f. url f \<in> set urls \<and>
                   (case lastFetched f of None \<Rightarrow> False | Some t \<Rightarrow> th \<le> t)) coll))))) `
   url ` {f \<in> set coll. url f \<in> set urls \<and>
            (case lastFetched f of None \<Rightarrow> False | Some t \<Rightarrow> th \<le> t)}"
  by (simp add: recentFetches_def Let_def)

lemma recentlyFetched_iff:
  "u \<in> fst ` {p \<in> set (recentFetches th coll urls). snd p \<noteq> None} \<longleftrightarrow>
   u \<in> set urls \<and> (\<exists>f\<in>set coll. url f = u \<and> (\<exists>t. lastFetched f = Some t \<and> th \<le> t))"
  (is "?L \<longleftrightarrow> ?R")
proof
  assume ?L
  then obtain p where p: "p \<in> set (recentFetches th coll urls)" "fst p = u" by auto
  then show ?R unfolding recentFetches_rows by (auto split: option.splits)
next
  assume R: ?R
  then obtain f t where f: "f \<in> set coll" "url f = u" "lastFetched f = Some t" "th \<le> t"
    by auto
  let ?M = "filter (\<lambda>f. url f \<in> set urls \<and>
                   (case lastFetched f of None \<Rightarrow> False | Some t \<Rightarrow> th \<le> t)) coll"
  have fM: "f \<in> set ?M" using f R by simp
  have "maxDate (map lastFetched (filter (\<lambda>f. url f = u) ?M)) \<noteq> None"
    unfolding maxDate_None_iff using fM f by force
  moreover have "(u, maxDate (map lastFetched (filter (\<lambda>f. url f = u) ?M)))
                  \<in> set (recentFetches th coll urls)"
    unfolding recentFetches_rows using f R by force
  ultimately show ?L by force
qed

lemma recentlyFetchedUrls_set:
  "set (map fst (filter (\<lambda>fetch. snd fetch \<noteq> None) (recentFetches th coll urls))) =
   {u \<in> set urls. \<exists>f\<in>set coll. url f = u \<and> (\<exists>t. lastFetched f = Some t \<and> th \<le> t)}"
proof -
  have "set (map fst (filter (\<lambda>fetch. snd fetch \<noteq> None) (recentFetches th coll urls))) =
        fst ` {p \<in> set (recentFetches th coll urls). snd p \<noteq> None}" by simp
  then show ?thesis using recentlyFetched_iff [of _ th coll urls] by blast
qed

lemma within_window_iff:
  "(\<exists>f\<in>set coll. url f = u \<and> (\<exists>t. lastFetched f = Some t \<and> th \<le> t)) \<longleftrightarrow>
   (case maxLastFetched coll u of None \<Rightarrow> False | Some m \<Rightarrow> th \<le> m)"
  (is "?L \<longleftrightarrow> ?R")
proof
  assume ?L
  then obtain f t where f: "f \<in> set coll" "url f = u" "lastFetched f = Some t" "th \<le> t"
    by auto
  then have mem: "Some t \<in> set (map lastFetched (filter (\<lambda>f. url f = u) coll))" by force
  then have "maxLastFetched coll u \<noteq> None"
    unfolding maxLastFetched_def maxDate_None_iff by force
  then obtain m where m: "maxLastFetched coll u = Some m" by auto
  then have "t \<le> m" using maxDate_Some_ub mem unfolding maxLastFetched_def by blast
  then show ?R using m f by simp
next
  assume R: ?R
  then obtain m where m: "maxLastFetched coll u = Some m" "th \<le> m"
    by (auto split: option.splits)
  then have "Some m \<in> set (map lastFetched (filter (\<lambda>f. url f = u) coll))"
    unfolding maxLastFetched_def by (rule_tac maxDate_Some_mem)
  then show ?L using m by force
qed

lemma feed_id_unique:
  "distinct (map feed_id coll) \<Longrightarrow> f \<in> set coll \<Longrightarrow> g \<in> set coll \<Longrightarrow>
   feed_id g = feed_id f \<Longrightarrow> g = f"
  by (meson distinct_map inj_on_eq_iff)

lemma stale_mem:
  "s \<in> set (map (\<lambda>feed. fromObjectId (feed_id feed))
              (filter (\<lambda>feed. url feed \<notin> R) (filter (\<lambda>f. feed_id f \<in> S) coll))) \<longleftrightarrow>
   (\<exists>g\<in>set coll. feed_id g \<in> S \<and> url g \<notin> R \<and> feed_id g = s)"
  by (auto simp: fromObjectId_def)

text \<open>
  C1, as the code has it. For requested ids that are all well-formed, and a feed document
  \<open>f\<close> of the collection whose id is among them: \<open>getFeedsToRefresh\<close> returns, and the id of
  \<open>f\<close> is in the returned list (stale) exactly when no feed document with the url of \<open>f\<close>
  has a \<open>lastFetched\<close>, or the largest one is more than \<open>CACHE_WINDOW\<close> before now. A
  largest \<open>lastFetched\<close> exactly \<open>CACHE_WINDOW\<close> before now counts as fresh.
\<close>

theorem getFeedsToRefresh_stale_iff:
  assumes valid: "mapToObjectId ids = Inr oids"
    and uniq: "distinct (map feed_id coll)"
    and f: "f \<in> set coll" "feed_id f \<in> set oids"
  shows "\<exists>stale. getFeedsToRefresh now coll ids = Inr stale \<and>
           (fromObjectId (feed_id f) \<in> set stale \<longleftrightarrow>
            \<not> (case maxLastFetched coll (url f) of
                  None \<Rightarrow> False
                | Some m \<Rightarrow> now - m \<le> CACHE_WINDOW))"
proof -
  let ?th = "now - CACHE_WINDOW"
  let ?feeds = "filter (\<lambda>f. feed_id f \<in> set oids) coll"
  let ?recent = "map fst (filter (\<lambda>fetch. snd fetch \<noteq> None)
                    (recentFetches ?th coll (remdups (map url ?feeds))))"
  let ?stale = "map (\<lambda>feed. fromObjectId (feed_id feed))
                    (filter (\<lambda>feed. url feed \<notin> set ?recent) ?feeds)"
  have res: "getFeedsToRefresh now coll ids = Inr ?stale"
    by (simp add: getFeedsToRefresh_def valid Let_def)
  have "fromObjectId (feed_id f) \<in> set ?stale \<longleftrightarrow>
        (\<exists>g\<in>set coll. feed_id g \<in> set oids \<and> url g \<notin> set ?recent \<and> feed_id g = feed_id f)"
    using stale_mem [of "fromObjectId (feed_id f)" "set ?recent" "set oids" coll]
    unfolding fromObjectId_def .
  also have "\<dots> \<longleftrightarrow> url f \<notin> set ?recent"
    using feed_id_unique [OF uniq f(1)] f by metis
  also have "\<dots> \<longleftrightarrow> \<not> (\<exists>g\<in>set coll. url g = url f \<and> (\<exists>t. lastFetched g = Some t \<and> ?th \<le> t))"
    unfolding recentlyFetchedUrls_set using f by auto
  also have "\<dots> \<longleftrightarrow> \<not> (case maxLastFetched coll (url f) of None \<Rightarrow> False | Some m \<Rightarrow> ?th \<le> m)"
    unfolding within_window_iff ..
  also have "\<dots> \<longleftrightarrow> \<not> (case maxLastFetched coll (url f) of None \<Rightarrow> False
                              | Some m \<Rightarrow> now - m \<le> CACHE_WINDOW)"
    by (auto split: option.splits)
  finally show ?thesis using res by blast
qed

text \<open>
  The theorem at the two feeds of the example, one hour after \<open>feedA\<close> was fetched: \<open>feedB\<close>,
  never fetched itself, is not to be refreshed.
\<close>

theorem getFeedsToRefresh_stale_iff_witness:
  "mapToObjectId [idB] = Inr [idB] \<and> distinct (map feed_id [feedA, feedB]) \<and>
   feedB \<in> set [feedA, feedB] \<and> feed_id feedB \<in> set [idB] \<and>
   (\<exists>stale. getFeedsToRefresh (1000 + 3600000) [feedA, feedB] [idB] = Inr stale \<and>
            fromObjectId (feed_id feedB) \<notin> set stale)"
proof -
  have h1: "mapToObjectId [idB] = Inr [idB]" by (simp add: toObjectId_idB)
  have h2: "distinct (map feed_id [feedA, feedB])"
    by (simp add: feedA_def feedB_def idA_neq_idB)
  have h3: "feedB \<in> set [feedA, feedB]" by simp
  have h4: "feed_id feedB \<in> set [idB]" by (simp add: feedB_def)
  have m: "maxLastFetched [feedA, feedB] (url feedB) = Some 1000"
    by (simp add: maxLastFetched_def feedA_def feedB_def)
  from getFeedsToRefresh_stale_iff [OF h1 h2 h3 h4, of "1000 + 3600000"]
  show ?thesis using h1 h2 h3 h4 by (simp add: m CACHE_WINDOW_def)
qed

text \<open>
  C1 as stated fails at the boundary: with \<open>now - maxLastFetched = CACHE_WINDOW\<close> exactly,
  the claim wants \<open>feedB\<close> refreshed, and the returned list is empty.
\<close>

theorem getFeedsToRefresh_boundary_counterexample:
  "maxLastFetched [feedA, feedB] (url feedB) = Some 1000 \<and>
   (1000 + CACHE_WINDOW) - 1000 = CACHE_WINDOW \<and>
   getFeedsToRefresh (1000 + CACHE_WINDOW) [feedA, feedB] [idB] = Inr []"
  by (simp add: getFeedsToRefresh_def recentFetches_def maxLastFetched_def toObjectId_idB
      feedA_def feedB_def Let_def)

section \<open>Properties of article ingestion\<close>

lemma bulkOutcomes_length: "length (bulkOutcomes env now coll articles) = length articles"
  by (induction articles arbitrary: coll) (auto split: prod.splits)

lemma bulkLoop_tally:
  "bulkLoop env now coll r0 articles = (coll', r) \<Longrightarrow>
   created r = created r0 + length (filter fulfilled (bulkOutcomes env now coll articles)) \<and>
   skipped r = skipped r0 + length (filter duplicateKeyFailure (bulkOutcomes env now coll articles)) \<and>
   errors r = errors r0 + length (filter otherFailure (bulkOutcomes env now coll articles))"
proof (induction articles arbitrary: coll r0)
  case Nil
  then show ?case by simp
next
  case (Cons a rest)
  obtain c1 out where step: "createRssArticle env now coll a = (c1, out)"
    by (cases "createRssArticle env now coll a")
  show ?case
  proof (cases out)
    case (Inr v)
    with Cons.prems step
    have "bulkLoop env now c1 (r0\<lparr>created := created r0 + 1\<rparr>) rest = (coll', r)" by simp
    from Cons.IH [OF this] show ?thesis
      using step Inr by (simp add: fulfilled_def duplicateKeyFailure_def otherFailure_def)
  next
    case (Inl e)
    show ?thesis
    proof (cases "isDuplicateKey e")
      case True
      with Cons.prems step Inl
      have "bulkLoop env now c1 (r0\<lparr>skipped := skipped r0 + 1\<rparr>) rest = (coll', r)" by simp
      from Cons.IH [OF this] show ?thesis
        using step Inl True by (simp add: fulfilled_def duplicateKeyFailure_def otherFailure_def)
    next
      case False
      with Cons.prems step Inl
      have "bulkLoop env now c1 (r0\<lparr>errors := errors r0 + 1\<rparr>) rest = (coll', r)" by simp
      from Cons.IH [OF this] show ?thesis
        using step Inl False by (simp add: fulfilled_def duplicateKeyFailure_def otherFailure_def)
    qed
  qed
qed

lemma outcome_partition:
  "length (filter fulfilled os) + length (filter duplicateKeyFailure os) +
   length (filter otherFailure os) = length os"
  by (induction os)
     (auto simp: fulfilled_def duplicateKeyFailure_def otherFailure_def split: sum.splits)

text \<open>
  C10. \<open>bulkCreateRssArticles\<close> returns counts for every input list, whatever concurrent
  writers do: the three counts add up to the number of articles; \<open>created\<close> counts the
  calls of \<open>createRssArticle\<close> that returned, \<open>skipped\<close> those that threw an error with
  code 11000, and \<open>errors\<close> those that threw anything else.
\<close>

theorem bulkCreateRssArticles_tally:
  "created (snd (bulkCreateRssArticles env now coll articles)) +
   skipped (snd (bulkCreateRssArticles env now coll articles)) +
   errors (snd (bulkCreateRssArticles env now coll articles)) = length articles \<and>
   created (snd (bulkCreateRssArticles env now coll articles)) =
     length (filter fulfilled (bulkOutcomes env now coll articles)) \<and>
   skipped (snd (bulkCreateRssArticles env now coll articles)) =
     length (filter duplicateKeyFailure (bulkOutcomes env now coll articles)) \<and>
   errors (snd (bulkCreateRssArticles env now coll articles)) =
     length (filter otherFailure (bulkOutcomes env now coll articles))"
proof -
  obtain coll' r where run: "bulkCreateRssArticles env now coll articles = (coll', r)"
    by (cases "bulkCreateRssArticles env now coll articles")
  then have "bulkLoop env now coll \<lparr>created = 0, skipped = 0, errors = 0\<rparr> articles = (coll', r)"
    by (simp add: bulkCreateRssArticles_def)
  from bulkLoop_tally [OF this] show ?thesis
    using run outcome_partition [of "bulkOutcomes env now coll articles"]
    by (simp add: bulkOutcomes_length)
qed

lemma find_guid_None:
  "g \<notin> set (map article_guid coll) \<Longrightarrow> find (\<lambda>a. article_guid a = g) coll = None"
  by (auto simp: find_None_iff)

text \<open>
  C3. The claim does not hold of the code. Feed \<open>idB\<close> ingests the item while a
  subscriber of \<open>feedA\<close> inserts the same guid between the read and the insert of the call:
  \<open>insertOne\<close> fails with the duplicate-key error, \<open>createRssArticle\<close> throws it to its caller
  instead of going through the update, and the stored article names \<open>idA\<close> as its only
  source. When the article is already there at the read, the same call records \<open>idB\<close>, as
  the comment above \<open>createRssArticle\<close> says it does.
\<close>

theorem createRssArticle_race_drops_feed:
  "createRssArticle (racingInsert storedFromA) 5 [] (itemFrom idB) =
     ([storedFromA], Inl (MongoServerError 11000 ''E11000 duplicate key error'')) \<and>
   sourceFeedIds storedFromA = Some [idA] \<and> idB \<notin> set [idA] \<and>
   map sourceFeedIds (fst (createRssArticle (\<lambda>c. c) 5 [storedFromA] (itemFrom idB))) =
     [Some [idA, idB]]"
  by (simp add: createRssArticle_def insertOne_def racingInsert_def itemFrom_def item_def
      storedFromA_def toObjectId_idB addToSet_def orEmpty_def fromObjectId_def idA_neq_idB
      idA_neq_idB [symmetric] Let_def)

subsection \<open>Ingestion from two feeds\<close>

lemma hexLower_idem: "hexLower (hexLower c) = hexLower c"
  by (simp add: hexLower_def)

lemma toObjectId_canonical: "toObjectId s = Inr oid \<Longrightarrow> oid = map hexLower s"
  by (auto simp: toObjectId_def newObjectId_def split: if_splits)

lemma toObjectId_fixed:
  assumes "toObjectId s = Inr oid" "toObjectId oid = Inr oid'"
  shows "oid' = oid"
  using assms by (auto dest!: toObjectId_canonical simp: hexLower_idem)

lemma find_append_last:
  "\<forall>x\<in>set xs. \<not> P x \<Longrightarrow> P y \<Longrightarrow> find P (xs @ [y]) = Some y"
  by (induction xs) auto

lemma findOneAndUpdate_append_last:
  "\<forall>x\<in>set xs. \<not> P x \<Longrightarrow> P y \<Longrightarrow>
   findOneAndUpdate P u (xs @ [y]) = (xs @ [u y], Some (u y))"
  by (induction xs) auto

lemma findOneAndUpdate_fixed:
  "find P xs = Some x \<Longrightarrow> u x = x \<Longrightarrow> findOneAndUpdate P u xs = (xs, Some x)"
  by (induction xs) (auto split: if_splits)

lemma findOneAndUpdate_find:
  "find P xs = Some x \<Longrightarrow> P (u x) \<Longrightarrow>
   find P (fst (findOneAndUpdate P u xs)) = Some (u x)"
  by (induction xs) (auto split: if_splits prod.splits)

lemma addToSet_mem: "oid \<in> set (orEmpty (addToSet oid field))"
  by (auto simp: addToSet_def orEmpty_def split: option.splits)

lemma ingest_new:
  assumes "toObjectId (feedId d) = Inr oid" "guid d \<notin> set (map article_guid coll)"
  shows "\<exists>a. ingest now d coll = coll @ [a] \<and> article_guid a = guid d \<and>
             sourceFeedIds a = Some [oid] \<and> article_feedId a = oid"
  using assms
  by (simp add: ingest_def createRssArticle_def find_guid_None insertOne_def Let_def
      split: option.splits)

lemma ingest_second:
  assumes d: "toObjectId (feedId d) = Inr o2"
    and new: "guid d \<notin> set (map article_guid coll)"
    and a: "article_guid a = guid d" "sourceFeedIds a = Some [o1]"
    and o1: "toObjectId f1 = Inr o1"
  shows "\<exists>a'. ingest now d (coll @ [a]) = coll @ [a'] \<and> article_guid a' = guid d \<and>
              set (orEmpty (sourceFeedIds a')) = {o1, o2} \<and>
              distinct (orEmpty (sourceFeedIds a'))"
proof -
  let ?P = "\<lambda>x::RssArticle. article_guid x = guid d"
  have none: "\<forall>x\<in>set coll. \<not> ?P x" using new by force
  have found: "find ?P (coll @ [a]) = Some a"
    using find_append_last [OF none] a by simp
  show ?thesis
  proof (cases "feedId d \<in> set (map fromObjectId (orEmpty (sourceFeedIds a)))")
    case True
    then have "feedId d = o1" using a by (simp add: orEmpty_def fromObjectId_def)
    then have "o2 = o1" using toObjectId_fixed [OF o1] d by simp
    moreover have "ingest now d (coll @ [a]) = coll @ [a]"
      using d found True by (simp add: ingest_def createRssArticle_def Let_def)
    ultimately show ?thesis using a by (simp add: orEmpty_def)
  next
    case False
    let ?u = "\<lambda>x::RssArticle. x\<lparr>sourceFeedIds := addToSet o2 (sourceFeedIds x)\<rparr>"
    have upd: "findOneAndUpdate ?P ?u (coll @ [a]) = (coll @ [?u a], Some (?u a))"
      using findOneAndUpdate_append_last [OF none, of a ?u] a by simp
    have "ingest now d (coll @ [a]) = coll @ [?u a]"
      using d found False upd by (simp add: ingest_def createRssArticle_def Let_def)
    then show ?thesis using a by (auto simp: addToSet_def orEmpty_def)
  qed
qed

lemma ingest_present:
  assumes "toObjectId (feedId d) = Inr oid"
    and x: "find (\<lambda>x. article_guid x = guid d) c = Some x"
      "oid \<in> set (orEmpty (sourceFeedIds x))"
  shows "ingest t d c = c"
proof -
  let ?u = "\<lambda>x::RssArticle. x\<lparr>sourceFeedIds := addToSet oid (sourceFeedIds x)\<rparr>"
  have "?u x = x" using x(2) by (auto simp: addToSet_def orEmpty_def split: option.splits)
  from findOneAndUpdate_fixed [OF x(1), of ?u, OF this] x(1) assms(1)
  show ?thesis by (simp add: ingest_def createRssArticle_def Let_def)
qed

lemma funpow_fixed: "f c = c \<Longrightarrow> (f ^^ n) c = c"
  by (induction n) simp_all

lemma ingest_pair:
  assumes v1: "toObjectId (feedId d1) = Inr o1" and v2: "toObjectId (feedId d2) = Inr o2"
    and g: "guid d1 = g" "guid d2 = g" and new: "g \<notin> set (map article_guid coll)"
  shows "\<exists>a. ingest t2 d2 (ingest t1 d1 coll) = coll @ [a] \<and> article_guid a = g \<and>
             set (orEmpty (sourceFeedIds a)) = {o1, o2} \<and>
             distinct (orEmpty (sourceFeedIds a))"
proof -
  from ingest_new [OF v1, of coll t1] g new
  obtain a where a: "ingest t1 d1 coll = coll @ [a]" "article_guid a = g"
    "sourceFeedIds a = Some [o1]" by auto
  from ingest_second [OF v2, of coll a o1 "feedId d1" t2] g new a v1
  show ?thesis using a g by auto
qed

lemma ingest_pair_settled:
  assumes v1: "toObjectId (feedId d1) = Inr o1" and v2: "toObjectId (feedId d2) = Inr o2"
    and g: "guid d1 = g" "guid d2 = g" and new: "g \<notin> set (map article_guid coll)"
  shows "(\<exists>a. filter (\<lambda>x. article_guid x = g) (ingest t2 d2 (ingest t1 d1 coll)) = [a] \<and>
              set (orEmpty (sourceFeedIds a)) = {o1, o2} \<and>
              distinct (orEmpty (sourceFeedIds a))) \<and>
         ingest t d1 (ingest t2 d2 (ingest t1 d1 coll)) = ingest t2 d2 (ingest t1 d1 coll) \<and>
         ingest t d2 (ingest t2 d2 (ingest t1 d1 coll)) = ingest t2 d2 (ingest t1 d1 coll)"
proof -
  from ingest_pair [OF assms, of t2 t1]
  obtain a where a: "ingest t2 d2 (ingest t1 d1 coll) = coll @ [a]" "article_guid a = g"
    "set (orEmpty (sourceFeedIds a)) = {o1, o2}" "distinct (orEmpty (sourceFeedIds a))"
    by auto
  have none: "\<forall>x\<in>set coll. \<not> article_guid x = g" using new by force
  then have nil: "filter (\<lambda>x. article_guid x = g) coll = []" by (simp add: filter_empty_conv)
  have found: "find (\<lambda>x. article_guid x = g) (coll @ [a]) = Some a"
    using none a(2) by (intro find_append_last) auto
  have "ingest t d1 (coll @ [a]) = coll @ [a]"
    using ingest_present [OF v1, of "coll @ [a]" a t] found g a(3) by simp
  moreover have "ingest t d2 (coll @ [a]) = coll @ [a]"
    using ingest_present [OF v2, of "coll @ [a]" a t] found g a(3) by simp
  ultimately show ?thesis using a nil by simp
qed

lemma ingest_idem: "ingest t' d (ingest t d coll) = ingest t d coll"
proof (cases "toObjectId (feedId d)")
  case (Inl e)
  then show ?thesis by (simp add: ingest_def createRssArticle_def)
next
  case (Inr oid)
  let ?P = "\<lambda>x::RssArticle. article_guid x = guid d"
  let ?u = "\<lambda>x::RssArticle. x\<lparr>sourceFeedIds := addToSet oid (sourceFeedIds x)\<rparr>"
  have fixp: "\<And>c x. find ?P c = Some x \<Longrightarrow> oid \<in> set (orEmpty (sourceFeedIds x)) \<Longrightarrow>
               ingest t' d c = c"
  proof -
    fix c x assume x: "find ?P c = Some x" "oid \<in> set (orEmpty (sourceFeedIds x))"
    then have "?u x = x" by (auto simp: addToSet_def orEmpty_def split: option.splits)
    from findOneAndUpdate_fixed [OF x(1), of ?u, OF this] x(1) Inr
    show "ingest t' d c = c" by (simp add: ingest_def createRssArticle_def Let_def)
  qed
  show ?thesis
  proof (cases "find ?P coll")
    case None
    then have new: "guid d \<notin> set (map article_guid coll)" by (auto simp: find_None_iff)
    from ingest_new [OF Inr new, of t]
    obtain a where a: "ingest t d coll = coll @ [a]" "article_guid a = guid d"
      "sourceFeedIds a = Some [oid]" by auto
    have "\<forall>x\<in>set coll. \<not> ?P x" using new by force
    then have "find ?P (coll @ [a]) = Some a"
      using a by (intro find_append_last) auto
    from fixp [OF this] a show ?thesis by (simp add: orEmpty_def)
  next
    case (Some ex)
    then have Pex: "?P ex" by (auto dest: find_Some_iff [THEN iffD1])
    show ?thesis
    proof (cases "feedId d \<in> set (map fromObjectId (orEmpty (sourceFeedIds ex)))")
      case True
      then have "\<And>s. ingest s d coll = coll"
        using Inr Some by (simp add: ingest_def createRssArticle_def Let_def split: option.splits)
      then show ?thesis by simp
    next
      case False
      have st: "ingest t d coll = fst (findOneAndUpdate ?P ?u coll)"
        using Inr Some False
        by (simp add: ingest_def createRssArticle_def Let_def split: prod.splits option.splits)
      have "find ?P (fst (findOneAndUpdate ?P ?u coll)) = Some (?u ex)"
        using findOneAndUpdate_find [OF Some, of ?u] Pex by simp
      from fixp [OF this] st show ?thesis by (simp add: addToSet_mem)
    qed
  qed
qed


lemma ingest_repeat: "((ingest t' d) ^^ n) (ingest t d coll) = ingest t d coll"
  by (simp add: funpow_fixed ingest_idem)

text \<open>
  C2, for ingestion without concurrent writers. For a guid \<open>g\<close> that is not yet stored and
  two requests for it with well-formed feed ids: after ingesting both, in either order, the
  collection holds exactly one article with guid \<open>g\<close>, and its \<open>sourceFeedIds\<close> holds
  the two feed ids, each once; ingesting the first request again, any number of times,
  changes nothing, neither after the first ingestion nor after both.
\<close>

theorem ingest_two_feeds:
  assumes v1: "toObjectId (feedId d1) = Inr o1" and v2: "toObjectId (feedId d2) = Inr o2"
    and g: "guid d1 = g" "guid d2 = g" and new: "g \<notin> set (map article_guid coll)"
  shows "(\<exists>a. filter (\<lambda>x. article_guid x = g) (ingest t2 d2 (ingest t1 d1 coll)) = [a] \<and>
              set (orEmpty (sourceFeedIds a)) = {o1, o2} \<and>
              distinct (orEmpty (sourceFeedIds a))) \<and>
         (\<exists>a. filter (\<lambda>x. article_guid x = g) (ingest t2 d1 (ingest t1 d2 coll)) = [a] \<and>
              set (orEmpty (sourceFeedIds a)) = {o1, o2} \<and>
              distinct (orEmpty (sourceFeedIds a))) \<and>
         (\<forall>n t. ((ingest t d1) ^^ n) (ingest t1 d1 coll) = ingest t1 d1 coll) \<and>
         (\<forall>n t. ((ingest t d1) ^^ n) (ingest t2 d2 (ingest t1 d1 coll)) =
                  ingest t2 d2 (ingest t1 d1 coll))"
proof -
  have "{o2, o1} = {o1, o2}" by auto
  then show ?thesis
    using ingest_pair_settled [OF v1 v2 g new, of t2 t1]
      ingest_pair_settled [OF v2 v1 g(2) g(1) new, of t2 t1]
    by (simp add: funpow_fixed ingest_repeat)
qed

text \<open>The theorem at the empty collection, with the example item read from \<open>idA\<close> and from \<open>idB\<close>.\<close>

theorem ingest_two_feeds_witness:
  "toObjectId (feedId (itemFrom idA)) = Inr idA \<and> toObjectId (feedId (itemFrom idB)) = Inr idB \<and>
   guid (itemFrom idA) = ''guid-1'' \<and> guid (itemFrom idB) = ''guid-1'' \<and>
   ''guid-1'' \<notin> set (map article_guid []) \<and>
   map sourceFeedIds (ingest 2 (itemFrom idB) (ingest 1 (itemFrom idA) [])) = [Some [idA, idB]] \<and>
   ingest 3 (itemFrom idA) (ingest 2 (itemFrom idB) (ingest 1 (itemFrom idA) [])) =
     ingest 2 (itemFrom idB) (ingest 1 (itemFrom idA) [])"
proof -
  have h1: "toObjectId (feedId (itemFrom idA)) = Inr idA" by (simp add: itemFrom_def toObjectId_idA)
  have h2: "toObjectId (feedId (itemFrom idB)) = Inr idB" by (simp add: itemFrom_def toObjectId_idB)
  have h3: "guid (itemFrom idA) = ''guid-1''" "guid (itemFrom idB) = ''guid-1''"
    by (simp_all add: itemFrom_def item_def)
  have h4: "''guid-1'' \<notin> set (map article_guid [])" by simp
  have run: "map sourceFeedIds (ingest 2 (itemFrom idB) (ingest 1 (itemFrom idA) [])) =
             [Some [idA, idB]]"
    by (simp add: ingest_def createRssArticle_def insertOne_def freshId_def itemFrom_def item_def
        toObjectId_idA toObjectId_idB orEmpty_def fromObjectId_def addToSet_def idA_neq_idB
        idA_neq_idB [symmetric] Let_def)
  from ingest_two_feeds [OF h1 h2 h3 h4, of 2 1]
  have "\<forall>n t. ((ingest t (itemFrom idA)) ^^ n) (ingest 2 (itemFrom idB) (ingest 1 (itemFrom idA) []))
          = ingest 2 (itemFrom idB) (ingest 1 (itemFrom idA) [])" by blast
  then have "((ingest 3 (itemFrom idA)) ^^ 1) (ingest 2 (itemFrom idB) (ingest 1 (itemFrom idA) []))
          = ingest 2 (itemFrom idB) (ingest 1 (itemFrom idA) [])" by blast
  then show ?thesis using h1 h2 h3 h4 run by simp
qed

section \<open>Properties of feed removal\<close>

lemma pullFeed_eq:
  "pullFeed f a = a\<lparr>sourceFeedIds := map_option (filter (\<lambda>s. s \<noteq> f)) (sourceFeedIds a)\<rparr>"
proof (cases "sourceFeedIds a")
  case None
  then show ?thesis by (simp add: pullFeed_def)
next
  case (Some ids)
  show ?thesis
  proof (cases "f \<in> set ids")
    case True
    then show ?thesis using Some by (simp add: pullFeed_def)
  next
    case False
    then have "filter (\<lambda>s. s \<noteq> f) ids = ids" by (auto simp: filter_id_conv)
    then show ?thesis using Some False by (simp add: pullFeed_def)
  qed
qed

lemma noFeedReferences_iff: "noFeedReferences a \<longleftrightarrow> \<not> hasSources a"
  by (auto simp: noFeedReferences_def hasSources_def orEmpty_def split: option.splits)

lemma deleteRssFeed_articles:
  "toObjectId fid = Inr f \<Longrightarrow>
   rssArticles (fst (deleteRssFeed db fid)) = removeFeedReference f (rssArticles db)"
  by (simp add: deleteRssFeed_def removeFeedReference_def Let_def pullFeed_eq [abs_def]
      noFeedReferences_iff)

lemma removeFeedReference_mem:
  "b \<in> set (removeFeedReference f coll) \<Longrightarrow>
   f \<notin> set (orEmpty (sourceFeedIds b)) \<and> orEmpty (sourceFeedIds b) \<noteq> []"
  by (auto simp: removeFeedReference_def hasSources_def orEmpty_def split: option.splits)

lemma removeFeedReference_survivor:
  "a \<in> set coll \<Longrightarrow> sourceFeedIds a = Some ids \<Longrightarrow> filter (\<lambda>s. s \<noteq> f) ids \<noteq> [] \<Longrightarrow>
   a\<lparr>sourceFeedIds := Some (filter (\<lambda>s. s \<noteq> f) ids)\<rparr> \<in> set (removeFeedReference f coll)"
  by (force simp: removeFeedReference_def hasSources_def orEmpty_def)

lemma removeFeedReference_length:
  "length (removeFeedReference f coll) =
   length (filter (\<lambda>a. \<not> set (orEmpty (sourceFeedIds a)) \<subseteq> {f}) coll)"
proof -
  have "\<And>a. hasSources (a\<lparr>sourceFeedIds := map_option (filter (\<lambda>s. s \<noteq> f)) (sourceFeedIds a)\<rparr>)
        \<longleftrightarrow> \<not> set (orEmpty (sourceFeedIds a)) \<subseteq> {f}"
    by (auto simp: hasSources_def orEmpty_def filter_empty_conv split: option.splits)
  then show ?thesis
    by (simp add: removeFeedReference_def filter_map comp_def)
qed

text \<open>
  C8. For a well-formed feed id, the articles left by \<open>deleteRssFeed\<close> are those of
  \<open>removeFeedReference\<close>: no remaining article names the feed, none has an empty
  \<open>sourceFeedIds\<close>, the articles deleted are exactly those that named no other feed, and an
  article that named the feed and one other survives with the other alone.
\<close>

theorem deleteRssFeed_removes_references:
  assumes "toObjectId fid = Inr f"
  shows "rssArticles (fst (deleteRssFeed db fid)) = removeFeedReference f (rssArticles db) \<and>
         (\<forall>b\<in>set (rssArticles (fst (deleteRssFeed db fid))).
            f \<notin> set (orEmpty (sourceFeedIds b)) \<and> orEmpty (sourceFeedIds b) \<noteq> []) \<and>
         length (rssArticles (fst (deleteRssFeed db fid))) =
           length (filter (\<lambda>a. \<not> set (orEmpty (sourceFeedIds a)) \<subseteq> {f}) (rssArticles db)) \<and>
         (\<forall>a\<in>set (rssArticles db). \<forall>g. sourceFeedIds a = Some [f, g] \<and> g \<noteq> f \<longrightarrow>
            a\<lparr>sourceFeedIds := Some [g]\<rparr> \<in> set (rssArticles (fst (deleteRssFeed db fid))))"
proof -
  have "\<And>a g. a \<in> set (rssArticles db) \<Longrightarrow> sourceFeedIds a = Some [f, g] \<Longrightarrow> g \<noteq> f \<Longrightarrow>
          a\<lparr>sourceFeedIds := Some [g]\<rparr> \<in> set (removeFeedReference f (rssArticles db))"
    using removeFeedReference_survivor [of _ "rssArticles db" "[f, _]" f] by force
  then show ?thesis
    using deleteRssFeed_articles [OF assms, of db] removeFeedReference_mem [of _ f "rssArticles db"]
      removeFeedReference_length [of f "rssArticles db"]
    by simp
qed


text \<open>
  The theorem at the example database: removing \<open>idA\<close> deletes the article only \<open>idA\<close>
  produced and leaves the shared one with \<open>idB\<close>.
\<close>

theorem deleteRssFeed_removes_references_witness:
  "toObjectId idA = Inr idA \<and>
   rssArticles (fst (deleteRssFeed exampleDb idA)) = [sharedArticle\<lparr>sourceFeedIds := Some [idB]\<rparr>]"
  using deleteRssFeed_removes_references [OF toObjectId_idA, of exampleDb]
  by (simp add: toObjectId_idA removeFeedReference_def exampleDb_def storedFromA_def
      sharedArticle_def hasSources_def orEmpty_def idA_neq_idB idA_neq_idB [symmetric])

subsection \<open>The article invariant\<close>

lemma primaryInSources_hasSources: "primaryInSources a \<Longrightarrow> hasSources a"
  by (auto simp: primaryInSources_def hasSources_def)

lemma findOneAndUpdate_list_all:
  "list_all Q xs \<Longrightarrow> (\<And>x. Q x \<Longrightarrow> Q (u x)) \<Longrightarrow> list_all Q (fst (findOneAndUpdate P u xs))"
  by (induction xs) (auto split: prod.splits)

lemma addToSet_keeps: "x \<in> set (orEmpty field) \<Longrightarrow> x \<in> set (orEmpty (addToSet oid field))"
  by (auto simp: addToSet_def orEmpty_def split: option.splits)

lemma createRssArticle_primaryInSources:
  assumes envinv: "\<And>c. list_all primaryInSources c \<Longrightarrow> list_all primaryInSources (env c)"
    and inv: "list_all primaryInSources coll"
  shows "list_all primaryInSources (fst (createRssArticle env now coll d))"
proof (cases "toObjectId (feedId d)")
  case (Inl e)
  then show ?thesis using inv by (simp add: createRssArticle_def)
next
  case (Inr oid)
  let ?P = "\<lambda>x::RssArticle. article_guid x = guid d"
  let ?u = "\<lambda>x::RssArticle. x\<lparr>sourceFeedIds := addToSet oid (sourceFeedIds x)\<rparr>"
  have e1: "list_all primaryInSources (env coll)" using envinv inv by simp
  show ?thesis
  proof (cases "find ?P coll")
    case (Some ex)
    obtain c2 r where upd: "findOneAndUpdate ?P ?u (env coll) = (c2, r)"
      by (cases "findOneAndUpdate ?P ?u (env coll)")
    have "list_all primaryInSources (fst (findOneAndUpdate ?P ?u (env coll)))"
      using e1 by (rule findOneAndUpdate_list_all) (simp add: primaryInSources_def addToSet_keeps)
    then have "list_all primaryInSources c2" using upd by simp
    then show ?thesis using Inr Some e1 upd
      by (cases r; cases "find ?P (env coll)") (simp_all add: createRssArticle_def Let_def)
  next
    case None
    show ?thesis
    proof (cases "guid d \<in> set (map article_guid (env coll))")
      case True
      then show ?thesis using Inr None e1
        by (simp add: createRssArticle_def insertOne_def Let_def)
    next
      case False
      let ?new = "\<lparr>article_id = freshId (env coll), article_feedId = oid, article_guid = guid d,
                   sourceFeedIds = Some [oid], article_title = title d,
                   article_link = link d, article_content = content d,
                   article_summary = summary d, article_pubDate = pubDate d,
                   article_author = author d, article_categories = orEmpty (categories d),
                   article_imageUrl = imageUrl d, createdAt = now, updatedAt = now\<rparr>"
      have "list_all primaryInSources (env coll @ [?new])"
        using e1 by (simp add: primaryInSources_def orEmpty_def)
      then have "list_all primaryInSources (env (env coll @ [?new]))" by (rule envinv)
      then show ?thesis using Inr None False
        by (simp add: createRssArticle_def insertOne_def Let_def split: option.splits)
    qed
  qed
qed

lemma deleteRssFeed_hasSources: "list_all hasSources coll \<Longrightarrow>
   list_all hasSources (rssArticles (fst (deleteRssFeed \<lparr>rssFeeds = fs, rssArticles = coll\<rparr> fid)))"
  by (cases "toObjectId fid")
     (simp_all add: deleteRssFeed_def Let_def noFeedReferences_iff list_all_iff)

lemma deleteRssFeed_other_primary:
  assumes "toObjectId fid = Inr f" "list_all primaryInSources (rssArticles db)"
  shows "list_all (\<lambda>a. article_feedId a = f \<or> primaryInSources a)
           (rssArticles (fst (deleteRssFeed db fid)))"
proof -
  have keep: "\<forall>a. primaryInSources a \<longrightarrow> article_feedId a \<noteq> f \<longrightarrow>
          primaryInSources (a\<lparr>sourceFeedIds := map_option (filter (\<lambda>s. s \<noteq> f)) (sourceFeedIds a)\<rparr>)"
    by (auto simp: primaryInSources_def orEmpty_def split: option.splits)
  have "\<forall>a\<in>set (rssArticles db). primaryInSources a"
    using assms(2) by (simp add: list_all_iff)
  with keep have "\<forall>b\<in>set (removeFeedReference f (rssArticles db)).
                    article_feedId b = f \<or> primaryInSources b"
    unfolding removeFeedReference_def by fastforce
  then show ?thesis
    unfolding deleteRssFeed_articles [OF assms(1)] list_all_iff .
qed

text \<open>
  C9, as the code has it. If every stored article has its primary feed among its sources,
  and concurrent writers keep it so, then \<open>createRssArticle\<close> keeps it so, and every
  article has a source afterwards. \<open>deleteRssFeed\<close> leaves every article with a source, and
  leaves the primary feed among the sources of every article whose primary feed is not the
  removed one.
\<close>

theorem upsert_and_removal_invariants:
  assumes envinv: "\<forall>c. list_all primaryInSources c \<longrightarrow> list_all primaryInSources (env c)"
    and inv: "list_all primaryInSources coll"
    and fid: "toObjectId fid = Inr f"
  shows "list_all primaryInSources (fst (createRssArticle env now coll d)) \<and>
         list_all hasSources (fst (createRssArticle env now coll d)) \<and>
         list_all hasSources
           (rssArticles (fst (deleteRssFeed \<lparr>rssFeeds = fs, rssArticles = coll\<rparr> fid))) \<and>
         list_all (\<lambda>a. article_feedId a = f \<or> primaryInSources a)
           (rssArticles (fst (deleteRssFeed \<lparr>rssFeeds = fs, rssArticles = coll\<rparr> fid)))"
proof -
  have c: "list_all primaryInSources (fst (createRssArticle env now coll d))"
    using envinv inv by (intro createRssArticle_primaryInSources) auto
  then have "list_all hasSources (fst (createRssArticle env now coll d))"
    by (auto simp: list_all_iff primaryInSources_hasSources)
  moreover have "list_all hasSources coll"
    using inv by (auto simp: list_all_iff primaryInSources_hasSources)
  ultimately show ?thesis
    using c deleteRssFeed_hasSources [of coll fs fid]
      deleteRssFeed_other_primary [OF fid, of "\<lparr>rssFeeds = fs, rssArticles = coll\<rparr>"] inv
    by simp
qed

text \<open>The theorem without concurrent writers, at the two articles of the example.\<close>

theorem upsert_and_removal_invariants_witness:
  "list_all primaryInSources [storedFromA, sharedArticle] \<and>
   toObjectId idB = Inr idB \<and>
   list_all primaryInSources (fst (createRssArticle (\<lambda>c. c) 5 [storedFromA, sharedArticle] (itemFrom idB))) \<and>
   list_all hasSources
     (rssArticles (fst (deleteRssFeed \<lparr>rssFeeds = [feedA, feedB],
        rssArticles = [storedFromA, sharedArticle]\<rparr> idB)))"
proof -
  have h1: "\<forall>c. list_all primaryInSources c \<longrightarrow> list_all primaryInSources ((\<lambda>c. c) c)"
    by simp
  have h2: "list_all primaryInSources [storedFromA, sharedArticle]"
    by (simp add: primaryInSources_def storedFromA_def sharedArticle_def orEmpty_def)
  from upsert_and_removal_invariants [OF h1 h2 toObjectId_idB, of 5 "itemFrom idB" "[feedA, feedB]"]
  show ?thesis using h2 by (simp add: toObjectId_idB)
qed

text \<open>
  C9 as stated fails for feed removal: the shared article has \<open>idA\<close> as its primary feed;
  after \<open>deleteRssFeed\<close> of \<open>idA\<close> it is still stored, with \<open>idB\<close> as its only source.
\<close>

theorem primary_feed_removed_counterexample:
  "list_all primaryInSources [sharedArticle] \<and>
   rssArticles (fst (deleteRssFeed \<lparr>rssFeeds = [feedA, feedB], rssArticles = [sharedArticle]\<rparr> idA))
     = [sharedArticle\<lparr>sourceFeedIds := Some [idB]\<rparr>] \<and>
   article_feedId (sharedArticle\<lparr>sourceFeedIds := Some [idB]\<rparr>) = idA \<and>
   \<not> primaryInSources (sharedArticle\<lparr>sourceFeedIds := Some [idB]\<rparr>)"
  by (simp add: deleteRssFeed_def pullFeed_def noFeedReferences_def primaryInSources_def
      sharedArticle_def storedFromA_def orEmpty_def toObjectId_idA idA_neq_idB
      idA_neq_idB [symmetric] Let_def)

section \<open>Properties of the article query\<close>

lemma cursorLimit_subset: "set (cursorLimit n xs) \<subseteq> set xs"
  by (auto simp: cursorLimit_def dest: in_set_takeD)

lemma cursorLimit_length: "0 < n \<Longrightarrow> length (cursorLimit n xs) \<le> n"
  by (simp add: cursorLimit_def)

lemma cursorLimit_sorted: "sorted_wrt R xs \<Longrightarrow> sorted_wrt R (cursorLimit n xs)"
  by (simp add: cursorLimit_def)

lemma sort_descending:
  "sorted_wrt (\<lambda>x y. article_pubDate y \<le> article_pubDate x)
     (sort_key (\<lambda>a. - article_pubDate a) xs)"
proof -
  have "sorted (map (\<lambda>a. - article_pubDate a) (sort_key (\<lambda>a. - article_pubDate a) xs))"
    by (rule sorted_sort_key)
  then show ?thesis by (simp add: sorted_map)
qed

lemma matchesFeeds_iff:
  "matchesFeeds oids a \<longleftrightarrow>
   article_feedId a \<in> set oids \<or> set (orEmpty (sourceFeedIds a)) \<inter> set oids \<noteq> {}"
  by (auto simp: matchesFeeds_def list_ex_iff)

text \<open>
  C6, as the code has it. Every returned article is a stored article whose primary feed is
  one of the requested feeds or whose \<open>sourceFeedIds\<close> meets them, and whose \<open>pubDate\<close> lies
  in the closed interval from \<open>start\<close> to \<open>end\<close>; the result is in descending order of
  \<open>pubDate\<close>; and it has at most \<open>limit\<close> entries when \<open>limit\<close> is positive.
\<close>

theorem getArticlesByFeedsAndDateRange_result:
  assumes "getArticlesByFeedsAndDateRange db ids start end limit = Inr res"
  shows "(\<exists>oids. mapToObjectId ids = Inr oids \<and>
            (\<forall>r\<in>set res. stored r \<in> set (rssArticles db) \<and>
               (article_feedId (stored r) \<in> set oids \<or>
                set (orEmpty (sourceFeedIds (stored r))) \<inter> set oids \<noteq> {}))) \<and>
         (\<forall>r\<in>set res. start \<le> article_pubDate (stored r) \<and> article_pubDate (stored r) \<le> end) \<and>
         (0 < limit \<longrightarrow> length res \<le> limit) \<and>
         sorted_wrt (\<lambda>x y. article_pubDate (stored y) \<le> article_pubDate (stored x)) res"
proof -
  from assms obtain oids where oids: "mapToObjectId ids = Inr oids"
    by (auto simp: getArticlesByFeedsAndDateRange_def split: sum.splits)
  let ?sel = "filter (\<lambda>a. matchesFeeds oids a \<and> start \<le> article_pubDate a \<and>
                          article_pubDate a \<le> end) (rssArticles db)"
  let ?arts = "cursorLimit limit (sort_key (\<lambda>a. - article_pubDate a) ?sel)"
  have st: "map stored res = ?arts"
    using assms oids by (auto simp: getArticlesByFeedsAndDateRange_def Let_def comp_def)
  have sub: "set ?arts \<subseteq> set ?sel"
    using cursorLimit_subset [of limit "sort_key (\<lambda>a. - article_pubDate a) ?sel"] by simp
  have mem: "\<forall>r\<in>set res. stored r \<in> set ?sel"
  proof
    fix r assume "r \<in> set res"
    then have "stored r \<in> set (map stored res)" by simp
    then show "stored r \<in> set ?sel" using sub unfolding st by blast
  qed
  have len: "0 < limit \<longrightarrow> length res \<le> limit"
  proof
    assume "0 < limit"
    then have "length ?arts \<le> limit" by (rule cursorLimit_length)
    then have "length (map stored res) \<le> limit" unfolding st .
    then show "length res \<le> limit" by simp
  qed
  have "sorted_wrt (\<lambda>x y. article_pubDate y \<le> article_pubDate x) (map stored res)"
    unfolding st by (intro cursorLimit_sorted sort_descending)
  then have srt: "sorted_wrt (\<lambda>x y. article_pubDate (stored y) \<le> article_pubDate (stored x)) res"
    by (simp add: sorted_wrt_map)
  have mem': "\<forall>r\<in>set res. stored r \<in> set (rssArticles db) \<and>
               (article_feedId (stored r) \<in> set oids \<or>
                set (orEmpty (sourceFeedIds (stored r))) \<inter> set oids \<noteq> {}) \<and>
               start \<le> article_pubDate (stored r) \<and> article_pubDate (stored r) \<le> end"
    using mem by (simp add: matchesFeeds_iff)
  show ?thesis using oids mem' len srt by blast
qed


text \<open>The theorem at the example database, for feed \<open>idB\<close> and a limit of 5.\<close>

theorem getArticlesByFeedsAndDateRange_result_witness:
  "getArticlesByFeedsAndDateRange exampleDb [idB] 0 1000 5 =
     Inr [\<lparr>stored = sharedArticle, sourceCount = 2,
           feedInfo = Some (idA, None, ''https://example.org/rss'')\<rparr>] \<and>
   length [\<lparr>stored = sharedArticle, sourceCount = 2,
           feedInfo = Some (idA, None, ''https://example.org/rss'')\<rparr>] \<le> (5::nat)"
proof -
  have run: "getArticlesByFeedsAndDateRange exampleDb [idB] 0 1000 5 =
     Inr [\<lparr>stored = sharedArticle, sourceCount = 2,
           feedInfo = Some (idA, None, ''https://example.org/rss'')\<rparr>]"
    by (simp add: getArticlesByFeedsAndDateRange_def exampleDb_def toObjectId_idB matchesFeeds_def
        cursorLimit_def sharedArticle_def storedFromA_def feedA_def feedB_def orEmpty_def
        idA_neq_idB idA_neq_idB [symmetric] Let_def)
  from getArticlesByFeedsAndDateRange_result [OF run] show ?thesis using run by simp
qed

text \<open>
  C6 as stated fails at \<open>limit = 0\<close>, which the driver reads as no limit: both articles of
  the example come back.
\<close>

theorem limit_zero_counterexample:
  "getArticlesByFeedsAndDateRange exampleDb [idA] 0 1000 0 =
     Inr [\<lparr>stored = storedFromA, sourceCount = 1,
           feedInfo = Some (idA, None, ''https://example.org/rss'')\<rparr>,
          \<lparr>stored = sharedArticle, sourceCount = 2,
           feedInfo = Some (idA, None, ''https://example.org/rss'')\<rparr>] \<and>
   \<not> length [\<lparr>stored = storedFromA, sourceCount = 1,
           feedInfo = Some (idA, None, ''https://example.org/rss'')\<rparr>,
          \<lparr>stored = sharedArticle, sourceCount = 2,
           feedInfo = Some (idA, None, ''https://example.org/rss'')\<rparr>] \<le> (0::nat)"
  by (simp add: getArticlesByFeedsAndDateRange_def exampleDb_def toObjectId_idA matchesFeeds_def
      cursorLimit_def sharedArticle_def storedFromA_def feedA_def feedB_def orEmpty_def
      idA_neq_idB idA_neq_idB [symmetric] Let_def)

section \<open>Properties of a single feed refresh\<close>










section \<open>Properties of the refresh orchestrator\<close>

subsection \<open>A refresh run alone\<close>

text \<open>
  A refresh that is resumed until it settles, with no other refresh and no other writer in
  between, is a call of \<open>fetchAndStoreFeed\<close>; so with the empty schedule
  \<open>Promise.allSettled\<close> is the refreshes one after the other.
\<close>

lemma finishTask_Settled: "finishTask net now (Settled r) db = (db, r)"
  by (simp add: finishTask.simps)

lemma finishTask_step:
  "phase t \<noteq> 0 \<Longrightarrow>
   finishTask net now t db = finishTask net now (fst (stepTask net now t db)) (snd (stepTask net now t db))"
  by (subst finishTask.simps) (cases t; simp split: prod.splits)

lemma finishTask_Storing_next:
  "stepArticle now a pos (rssArticles db) = (coll, Inl pos1) \<Longrightarrow>
   finishTask net now (Storing fid meta results a rest pos) db =
   finishTask net now (Storing fid meta results a rest pos1) (db\<lparr>rssArticles := coll\<rparr>)"
  by (subst finishTask_step) (simp_all add: stepTask_def)

lemma finishTask_Storing_done:
  "stepArticle now a pos (rssArticles db) = (coll, Inr r) \<Longrightarrow>
   finishTask net now (Storing fid meta results a rest pos) db =
   finishTask net now (nextArticle fid meta (tally results r) rest) (db\<lparr>rssArticles := coll\<rparr>)"
  by (subst finishTask_step) (simp_all add: stepTask_def)

lemma stepArticle_AtWrite:
  "\<exists>coll r. stepArticle now a (AtWrite ex oid) c = (coll, Inr r)"
  by (simp add: stepArticle_def Let_def split: prod.splits option.splits)

lemma stepArticle_AtReadBack:
  "\<exists>r. stepArticle now a (AtReadBack i) c = (c, Inr r)"
  by (simp add: stepArticle_def split: option.splits)

lemma finishTask_article:
  "finishTask net now (Storing fid meta results a rest AtRead) db =
     (case createRssArticle (\<lambda>c. c) now (rssArticles db) a of
        (coll, r) \<Rightarrow>
          finishTask net now (nextArticle fid meta (tally results r) rest)
            (db\<lparr>rssArticles := coll\<rparr>))"
proof (cases "toObjectId (feedId a)")
  case (Inl e)
  then have "stepArticle now a AtRead (rssArticles db) = (rssArticles db, Inr (Inl e))"
    by (simp add: stepArticle_def)
  from finishTask_Storing_done [OF this] show ?thesis
    using Inl by (simp add: createRssArticle_def)
next
  case (Inr oid)
  show ?thesis
  proof (cases "find (\<lambda>x. article_guid x = guid a) (rssArticles db)")
    case (Some ex)
    then have s1: "stepArticle now a AtRead (rssArticles db) = (rssArticles db, Inl (AtWrite ex oid))"
      using Inr by (simp add: stepArticle_def)
    obtain coll r where s2: "stepArticle now a (AtWrite ex oid) (rssArticles db) = (coll, Inr r)"
      using stepArticle_AtWrite by blast
    have c: "createRssArticle (\<lambda>c. c) now (rssArticles db) a = (coll, r)"
      using s2 Inr Some
      by (auto simp: createRssArticle_def stepArticle_def Let_def
          split: prod.splits option.splits if_splits)
    show ?thesis
      using finishTask_Storing_next [OF s1, of net fid meta results rest]
        finishTask_Storing_done [of now a "AtWrite ex oid" "db\<lparr>rssArticles := rssArticles db\<rparr>" coll r
          net fid meta results rest] s2 c
      by simp
  next
    case None
    then have s1: "stepArticle now a AtRead (rssArticles db) = (rssArticles db, Inl (AtInsert oid))"
      using Inr by (simp add: stepArticle_def)
    let ?doc = "\<lparr>article_id = 0, article_feedId = oid, article_guid = guid a,
                   sourceFeedIds = Some [oid], article_title = title a,
                   article_link = link a, article_content = content a,
                   article_summary = summary a, article_pubDate = pubDate a,
                   article_author = author a, article_categories = orEmpty (categories a),
                   article_imageUrl = imageUrl a, createdAt = now, updatedAt = now\<rparr>"
    note first = finishTask_Storing_next [OF s1, of net fid meta results rest]
    show ?thesis
    proof (cases "insertOne (rssArticles db) ?doc")
      case (Inl e)
      then have s2: "stepArticle now a (AtInsert oid) (rssArticles db) = (rssArticles db, Inr (Inl e))"
        by (simp add: stepArticle_def)
      have c: "createRssArticle (\<lambda>c. c) now (rssArticles db) a = (rssArticles db, Inl e)"
        using Inl Inr None by (simp add: createRssArticle_def)
      show ?thesis
        using first finishTask_Storing_done [of now a "AtInsert oid"
            "db\<lparr>rssArticles := rssArticles db\<rparr>" "rssArticles db" "Inl e" net fid meta results rest]
          s2 c
        by simp
    next
      case (Inr ok)
      obtain coll2 i where ok: "ok = (coll2, i)" by (cases ok)
      have s2: "stepArticle now a (AtInsert oid) (rssArticles db) = (coll2, Inl (AtReadBack i))"
        using Inr ok by (simp add: stepArticle_def)
      obtain r where s3: "stepArticle now a (AtReadBack i) coll2 = (coll2, Inr r)"
        using stepArticle_AtReadBack by blast
      have c: "createRssArticle (\<lambda>c. c) now (rssArticles db) a = (coll2, r)"
        using Inr ok \<open>toObjectId (feedId a) = Inr oid\<close> None s3
        by (auto simp: createRssArticle_def stepArticle_def split: option.splits)
      show ?thesis
        using first
          finishTask_Storing_next [of now a "AtInsert oid" "db\<lparr>rssArticles := rssArticles db\<rparr>"
            coll2 "AtReadBack i" net fid meta results rest]
          finishTask_Storing_done [of now a "AtReadBack i" "db\<lparr>rssArticles := coll2\<rparr>" coll2 r
            net fid meta results rest]
          s2 s3 c
        by simp
    qed
  qed
qed

lemma finishTask_bulk:
  "finishTask net now (nextArticle fid meta results articles) db =
     (case bulkLoop (\<lambda>c. c) now (rssArticles db) results articles of
        (coll, res) \<Rightarrow> finishTask net now (Updating fid meta res) (db\<lparr>rssArticles := coll\<rparr>))"
proof (induction articles arbitrary: results db)
  case Nil
  show ?case by (simp add: nextArticle_def)
next
  case (Cons a rest)
  obtain coll r where c: "createRssArticle (\<lambda>c. c) now (rssArticles db) a = (coll, r)"
    by (cases "createRssArticle (\<lambda>c. c) now (rssArticles db) a")
  have "finishTask net now (nextArticle fid meta results (a # rest)) db =
        finishTask net now (nextArticle fid meta (tally results r) rest) (db\<lparr>rssArticles := coll\<rparr>)"
    using finishTask_article [of net now fid meta results a rest db] c
    by (simp add: nextArticle_def)
  also have "\<dots> = (case bulkLoop (\<lambda>c. c) now coll (tally results r) rest of
                      (coll', res) \<Rightarrow>
                        finishTask net now (Updating fid meta res) (db\<lparr>rssArticles := coll'\<rparr>))"
    using Cons.IH [of "tally results r" "db\<lparr>rssArticles := coll\<rparr>"] by simp
  also have "\<dots> = (case bulkLoop (\<lambda>c. c) now (rssArticles db) results (a # rest) of
                      (coll', res) \<Rightarrow>
                        finishTask net now (Updating fid meta res) (db\<lparr>rssArticles := coll'\<rparr>))"
    using c by (cases r) (simp_all add: tally_def)
  finally show ?case .
qed

lemma finishTask_Updating:
  "finishTask net now (Updating fid meta res) db =
     (case updateFeedLastFetched now (rssFeeds db) fid of
        (feeds, Inl e) \<Rightarrow> (db\<lparr>rssFeeds := feeds\<rparr>, Inl e)
      | (feeds, Inr _) \<Rightarrow>
          (db\<lparr>rssFeeds := feeds\<rparr>,
           Inr \<lparr>created = created res, skipped = skipped res, errors = errors res,
                metadata = meta\<rparr>))"
  by (subst finishTask_step)
     (simp_all add: stepTask_def finishTask_Settled split: prod.splits sum.splits)

lemma finishTask_fetchAndStoreFeed:
  "finishTask net now (FindFeed fid) db = fetchAndStoreFeed net (\<lambda>c. c) now db fid"
proof (cases "toObjectId fid")
  case (Inl e)
  then show ?thesis
    by (subst finishTask_step) (simp_all add: stepTask_def finishTask_Settled fetchAndStoreFeed_def)
next
  case (Inr oid)
  show ?thesis
  proof (cases "find (\<lambda>f. feed_id f = oid) (rssFeeds db)")
    case None
    then show ?thesis using Inr
      by (subst finishTask_step)
         (simp_all add: stepTask_def finishTask_Settled fetchAndStoreFeed_def)
  next
    case (Some feed)
    have one: "finishTask net now (FindFeed fid) db = finishTask net now (Fetching fid feed) db"
      using Inr Some by (subst finishTask_step) (simp_all add: stepTask_def)
    show ?thesis
    proof (cases "net (url feed) fid")
      case (Inl e)
      then show ?thesis using Inr Some one
        by (subst (asm) (2) finishTask_step)
           (simp_all add: stepTask_def finishTask_Settled fetchAndStoreFeed_def)
    next
      case (Inr ok)
      obtain meta articles where ok: "ok = (meta, articles)" by (cases ok)
      have two: "finishTask net now (Fetching fid feed) db =
                 finishTask net now
                   (nextArticle fid meta \<lparr>created = 0, skipped = 0, errors = 0\<rparr>
                      (articlesToCreate fid articles)) db"
        using Inr ok by (subst finishTask_step) (simp_all add: stepTask_def)
      show ?thesis
        using one two \<open>toObjectId fid = Inr oid\<close> Some Inr ok
        by (simp add: finishTask_bulk finishTask_Updating fetchAndStoreFeed_def
            bulkCreateRssArticles_def split: prod.splits sum.splits)
    qed
  qed
qed

lemma allSettled_unscheduled:
  "allSettled net env now [] db [] = (db, [])"
  "allSettled net env now [] db (fid # rest) =
     (case fetchAndStoreFeed net (\<lambda>c. c) now db fid of
        (db1, r) \<Rightarrow>
          (case allSettled net env now [] db1 rest of
             (db2, rs) \<Rightarrow> (db2, r # rs)))"
  by (simp_all add: allSettled_def finishTask_fetchAndStoreFeed)

subsection \<open>What every schedule keeps\<close>













lemma settled_partition:
  "length (filter fulfilled rs) + length (filter rejected rs) = length rs"
  by (induction rs) (auto simp: fulfilled_def rejected_def split: sum.splits)



lemma toObjectId_error: "toObjectId s = Inl e \<Longrightarrow> e = Error (''Invalid ObjectId: '' @ s)"
  by (auto simp: toObjectId_def split: option.splits)

lemma mapToObjectId_error: "mapToObjectId ids = Inl e \<Longrightarrow> e \<noteq> noArticlesFound"
  by (induction ids) (auto simp: noArticlesFound_def split: sum.splits dest!: toObjectId_error)

lemma getFeedsToRefresh_valid:
  "getFeedsToRefresh now coll ids = Inr stale \<Longrightarrow> \<exists>oids. mapToObjectId ids = Inr oids"
  by (auto simp: getFeedsToRefresh_def Let_def split: sum.splits)

lemma getFeedsToRefresh_error:
  "getFeedsToRefresh now coll ids = Inl e \<Longrightarrow> e \<noteq> noArticlesFound"
  by (auto simp: getFeedsToRefresh_def Let_def split: sum.splits dest: mapToObjectId_error)

lemma query_total:
  "mapToObjectId ids = Inr oids \<Longrightarrow>
   \<exists>res. getArticlesByFeedsAndDateRange db ids start end limit = Inr res"
  by (simp add: getArticlesByFeedsAndDateRange_def)

lemma prepare_result:
  assumes stale: "getFeedsToRefresh now (rssFeeds db) (feedIds params) = Inr stale"
  shows "\<exists>res. getArticlesByFeedsAndDateRange
                 (fst (refreshStale net env now sched db (length (feedIds params)) stale))
                 (feedIds params) (startDate params) (endDate params) ARTICLE_LIMIT = Inr res \<and>
               prepareFeedsAndArticles net env now sched db params =
                 (fst (refreshStale net env now sched db (length (feedIds params)) stale),
                  snd (refreshStale net env now sched db (length (feedIds params)) stale),
                  if length res = 0 then Inl noArticlesFound else Inr res)"
proof -
  from getFeedsToRefresh_valid [OF stale] obtain oids
    where "mapToObjectId (feedIds params) = Inr oids" by blast
  from query_total [OF this] obtain res where
    "getArticlesByFeedsAndDateRange
       (fst (refreshStale net env now sched db (length (feedIds params)) stale))
       (feedIds params) (startDate params) (endDate params) ARTICLE_LIMIT = Inr res" by blast
  then show ?thesis using stale
    by (auto simp: prepareFeedsAndArticles_def split: prod.splits)
qed


text \<open>
  The theorem at the scenario, under a schedule that starts the second refresh first: the
  feed whose fetch returns counts as successful, the one whose fetch times out as failed.
\<close>

lemma toObjectId_idC: "toObjectId idC = Inr idC"
  by (simp add: idC_def toObjectId_def newObjectId_def isHexDigit_def hexLower_def)

lemma idB_neq_idC: "idB \<noteq> idC"
  by (simp add: idB_def idC_def)







text \<open>
  C5. Under every schedule, \<open>prepareFeedsAndArticles\<close> throws the error for an empty
  article list exactly when the staleness check has returned and the article query, run on
  the database as the refresh left it, returns no article; and it returns a list exactly
  when that query returns it and it is not empty.
\<close>

theorem prepareFeedsAndArticles_no_content:
  "(snd (snd (prepareFeedsAndArticles net env now sched db params)) = Inl noArticlesFound \<longleftrightarrow>
      (\<exists>stale. getFeedsToRefresh now (rssFeeds db) (feedIds params) = Inr stale \<and>
         getArticlesByFeedsAndDateRange
           (fst (refreshStale net env now sched db (length (feedIds params)) stale))
           (feedIds params) (startDate params) (endDate params) ARTICLE_LIMIT = Inr [])) \<and>
   (\<forall>articles. snd (snd (prepareFeedsAndArticles net env now sched db params)) = Inr articles \<longleftrightarrow>
      articles \<noteq> [] \<and>
      (\<exists>stale. getFeedsToRefresh now (rssFeeds db) (feedIds params) = Inr stale \<and>
         getArticlesByFeedsAndDateRange
           (fst (refreshStale net env now sched db (length (feedIds params)) stale))
           (feedIds params) (startDate params) (endDate params) ARTICLE_LIMIT = Inr articles))"
proof (cases "getFeedsToRefresh now (rssFeeds db) (feedIds params)")
  case (Inl e)
  then have "prepareFeedsAndArticles net env now sched db params = (db, [], Inl e)"
    by (simp add: prepareFeedsAndArticles_def)
  then show ?thesis using Inl getFeedsToRefresh_error [OF Inl] by auto
next
  case (Inr stale)
  from prepare_result [OF Inr, of net env sched] show ?thesis using Inr
    by (auto split: if_splits)
qed

text \<open>
  The theorem at the example database with both feeds fresh and a date range that holds no
  article.
\<close>

lemma fresh_stale: "getFeedsToRefresh 2000 (rssFeeds exampleDb) [idB] = Inr []"
  by (simp add: getFeedsToRefresh_def recentFetches_def exampleDb_def
      toObjectId_idB feedA_def feedB_def fromObjectId_def idA_neq_idB CACHE_WINDOW_def Let_def)

lemma fresh_query: "getArticlesByFeedsAndDateRange exampleDb [idB] 0 100 ARTICLE_LIMIT = Inr []"
  by (simp add: getArticlesByFeedsAndDateRange_def exampleDb_def toObjectId_idB matchesFeeds_def
      cursorLimit_def sharedArticle_def storedFromA_def orEmpty_def Let_def)

theorem prepareFeedsAndArticles_no_content_witness:
  "getFeedsToRefresh 2000 (rssFeeds exampleDb) [idB] = Inr [] \<and>
   getArticlesByFeedsAndDateRange exampleDb [idB] 0 100 ARTICLE_LIMIT = Inr [] \<and>
   snd (snd (prepareFeedsAndArticles fetchTimeout (\<lambda>c. c) 2000 raceSchedule exampleDb
               \<lparr>feedIds = [idB], startDate = 0, endDate = 100\<rparr>)) = Inl noArticlesFound"
proof -
  have "\<exists>stale. getFeedsToRefresh 2000 (rssFeeds exampleDb) [idB] = Inr stale \<and>
          getArticlesByFeedsAndDateRange
            (fst (refreshStale fetchTimeout (\<lambda>c. c) 2000 raceSchedule exampleDb (length [idB]) stale))
            [idB] 0 100 ARTICLE_LIMIT = Inr []"
    using fresh_stale fresh_query by (simp add: refreshStale_def)
  then show ?thesis
    using prepareFeedsAndArticles_no_content [of fetchTimeout "\<lambda>c. c" 2000 raceSchedule exampleDb
        "\<lparr>feedIds = [idB], startDate = 0, endDate = 100\<rparr>"] fresh_stale fresh_query
    by simp
qed

subsection \<open>Two refreshes that fetch the same new item\<close>

text \<open>
  When the two stale feeds of the scenario return the same item and their refreshes take
  turns, both read before either inserts: the second insert fails with the duplicate-key
  error, the second feed's article is counted as skipped, and the stored article names the
  first feed only. Run one after the other, the same two refreshes leave it with both
  feeds.
\<close>

lemma allSettled_same_guid:
  "allSettled fetchItem (\<lambda>c. c) 5 raceSchedule scenarioDb [idB, idC] =
     (\<lparr>rssFeeds = [feedB\<lparr>lastFetched := Some 5\<rparr>, feedC\<lparr>lastFetched := Some 5\<rparr>],
       rssArticles = [storedFromA\<lparr>article_feedId := idB, sourceFeedIds := Some [idB],
                                  createdAt := 5, updatedAt := 5\<rparr>]\<rparr>,
      [Inr \<lparr>created = 1, skipped = 0, errors = 0, metadata = ()\<rparr>,
       Inr \<lparr>created = 0, skipped = 1, errors = 0, metadata = ()\<rparr>])"
  by (simp add: allSettled_def raceSchedule_def scenarioDb_def stepTask_def
      stepArticle_def nextArticle_def tally_def isDuplicateKey_def articlesToCreate_def
      fetchItem_def item_def updateFeedLastFetched_def insertOne_def freshId_def
      finishTask_Settled finishTask_step storedFromA_def feedB_def feedC_def
      toObjectId_idB toObjectId_idC orEmpty_def fromObjectId_def idB_neq_idC
      idB_neq_idC [symmetric] Let_def)

lemma allSettled_same_guid_in_turn:
  "map sourceFeedIds (rssArticles (fst (allSettled fetchItem (\<lambda>c. c) 5 [] scenarioDb [idB, idC]))) =
     [Some [idB, idC]]"
  by (simp add: allSettled_def scenarioDb_def stepTask_def
      stepArticle_def nextArticle_def tally_def isDuplicateKey_def articlesToCreate_def
      fetchItem_def item_def updateFeedLastFetched_def insertOne_def freshId_def addToSet_def
      finishTask_Settled finishTask_step feedB_def feedC_def
      toObjectId_idB toObjectId_idC orEmpty_def fromObjectId_def idB_neq_idC
      idB_neq_idC [symmetric] Let_def split: prod.splits)

end
